theory Spec2Isabelle
  imports Complex_Main
begin

section \<open>Native frames instrumentation: data model\<close>

text \<open>
  The development embeds \<^verbatim>\<open>src/js/tracing/nativeframes.ts\<close>, the class
  \<^verbatim>\<open>NativeFramesInstrumentation\<close>. JavaScript numbers that hold frame counters are
  integers here; timestamps in seconds are real numbers, so that the comparison with the
  margin of error is the mathematical one. The source subtracts binary64 numbers and
  compares the rounded difference with the binary64 number nearest to 0.05: which
  timestamps lie exactly on the boundary of the margin depends on that rounding, and
  nothing is stated here about the boundary itself. The calls of the logger are left
  out: they change nothing that the class reads.
\<close>

text \<open>
  Modelled from the spec: the type \<^verbatim>\<open>NativeFramesResponse\<close> is declared in
  \<^verbatim>\<open>../definitions\<close>; the source reads its three counters.
\<close>

record NativeFramesResponse =
  totalFrames :: int
  slowFrames :: int
  frozenFrames :: int

text \<open>
  \<^verbatim>\<open>FramesMeasurements\<close>: each field stands for the \<^verbatim>\<open>{ value: number }\<close> stored
  under the key of the same name.
\<close>

record FramesMeasurements =
  frames_total :: int
  frames_frozen :: int
  frames_slow :: int

definition MARGIN_OF_ERROR_SECONDS :: real where
  "MARGIN_OF_ERROR_SECONDS = 0.05"

text \<open>The values of the map \<^verbatim>\<open>_finishFrames\<close>.\<close>

record finish_frames =
  timestamp :: real
  nativeFrames :: "NativeFramesResponse option"

text \<open>The value of the field \<^verbatim>\<open>_lastSpanFinishFrames\<close>.\<close>

record span_finish_frames =
  span_timestamp :: real
  span_nativeFrames :: NativeFramesResponse


section \<open>Events handed to the event processor\<close>

text \<open>
  Only the fields that \<^verbatim>\<open>_processEvent\<close> reads or writes are kept. The trace data is
  the object \<^verbatim>\<open>contexts.trace.data\<close>: the key \<^verbatim>\<open>__startFrames\<close>, written by
  \<^verbatim>\<open>onTransactionStart\<close> only, and the other keys. Measurement values are numbers.
\<close>

record trace_data =
  startFrames :: "NativeFramesResponse option"
  other_data :: "string \<rightharpoonup> string"

record trace_context =
  trace_id :: string
  data :: "trace_data option"

record contexts =
  trace :: "trace_context option"

record Event =
  ev_type :: "string option"
  ev_transaction :: "string option"
  ev_contexts :: "contexts option"
  ev_timestamp :: "real option"
  ev_measurements :: "(string \<rightharpoonup> real) option"

text \<open>JavaScript truthiness of an optional string and of an optional number.\<close>

definition truthy_string :: "string option \<Rightarrow> bool" where
  "truthy_string s = (case s of None \<Rightarrow> False | Some x \<Rightarrow> x \<noteq> [])"

definition truthy_number :: "real option \<Rightarrow> bool" where
  "truthy_number t = (case t of None \<Rightarrow> False | Some x \<Rightarrow> x \<noteq> 0)"

text \<open>
  A transaction is a host object: \<open>tx_ref\<close> addresses its mutable
  \<^verbatim>\<open>data.__startFrames\<close> in the store, \<open>traceId\<close> is its trace identifier.
\<close>

record Transaction =
  tx_ref :: nat
  traceId :: string

section \<open>The state of the instrumentation and of the event loop\<close>

text \<open>
  A listener is the closure stored in \<^verbatim>\<open>_framesListeners\<close>: it captures the arguments
  of \<^verbatim>\<open>_getFramesMeasurements\<close>, the \<open>resolve\<close> function of the promise
  (\<open>l_promise\<close>) and the timer handle (\<open>l_timeout\<close>).
\<close>

record listener =
  l_traceId :: string
  l_finalEndTimestamp :: real
  l_startFrames :: NativeFramesResponse
  l_promise :: nat
  l_timeout :: nat

text \<open>The two callbacks given to \<^verbatim>\<open>setTimeout\<close>, with what they capture.\<close>

datatype timer_callback =
  WaiterTimeout string nat
| CancelFinishFrames string

text \<open>
  The three continuations of \<^verbatim>\<open>NATIVE.fetchNativeFrames()\<close>: in
  \<^verbatim>\<open>onTransactionStart\<close>, in \<^verbatim>\<open>_onSpanFinish\<close> (with the captured timestamp) and
  in \<^verbatim>\<open>_fetchFramesForTransaction\<close> (with the trace identifier and the timestamp).
\<close>

datatype fetch_continuation =
  StartFetch nat
| SpanFinishFetch real
| FinishFetch string real

text \<open>A call of \<^verbatim>\<open>_processEvent\<close> suspended at its \<^verbatim>\<open>await\<close>.\<close>

record suspended =
  s_event :: Event
  s_traceId :: string

text \<open>
  The first three fields are the private fields of the class. The others are the
  environment: the start frames stored on transactions, the pending native fetches, the
  pending timers (delay in milliseconds and callback), the settled promises of
  \<^verbatim>\<open>_getFramesMeasurements\<close> (a promise that is not in the map is pending), the
  suspended calls of \<^verbatim>\<open>_processEvent\<close>, the events they have returned, the
  microtask queue (the promises whose awaiting call is ready to run on) and the next
  fresh handle.
\<close>

record state =
  finishFrames :: "string \<rightharpoonup> finish_frames"
  framesListeners :: "string \<rightharpoonup> listener"
  lastSpanFinishFrames :: "span_finish_frames option"
  txData :: "nat \<rightharpoonup> NativeFramesResponse"
  fetches :: "nat \<rightharpoonup> fetch_continuation"
  timers :: "nat \<rightharpoonup> nat \<times> timer_callback"
  promises :: "nat \<rightharpoonup> FramesMeasurements option"
  awaiting :: "nat \<rightharpoonup> suspended"
  returned :: "nat \<rightharpoonup> Event"
  microtasks :: "nat list"
  nextId :: nat

definition init_state :: state where
  "init_state =
     \<lparr>finishFrames = Map.empty, framesListeners = Map.empty, lastSpanFinishFrames = None,
      txData = Map.empty, fetches = Map.empty, timers = Map.empty, promises = Map.empty,
      awaiting = Map.empty, returned = Map.empty, microtasks = [], nextId = 0\<rparr>"

datatype outcome = Done Event | Pending nat

section \<open>\<^verbatim>\<open>_prepareMeasurements\<close>\<close>

text \<open>
  The first branch of the source: the finish record of the trace, when it exists, has
  native frames and lies within the margin of error of the final end timestamp.
\<close>

definition finishCandidate :: "state \<Rightarrow> string \<Rightarrow> real \<Rightarrow> NativeFramesResponse option" where
  "finishCandidate st tid finalEndTimestamp =
     (case finishFrames st tid of
        None \<Rightarrow> None
      | Some finish \<Rightarrow>
          (case nativeFrames finish of
             None \<Rightarrow> None
           | Some nf \<Rightarrow>
               if \<bar>timestamp finish - finalEndTimestamp\<bar> < MARGIN_OF_ERROR_SECONDS
               then Some nf else None))"

text \<open>The second branch: the last span finish, when it lies within the margin.\<close>

definition spanCandidate :: "state \<Rightarrow> real \<Rightarrow> NativeFramesResponse option" where
  "spanCandidate st finalEndTimestamp =
     (case lastSpanFinishFrames st of
        None \<Rightarrow> None
      | Some lastSpan \<Rightarrow>
          if \<bar>span_timestamp lastSpan - finalEndTimestamp\<bar> < MARGIN_OF_ERROR_SECONDS
          then Some (span_nativeFrames lastSpan) else None)"

text \<open>
  The value of the local variable \<^verbatim>\<open>finalFinishFrames\<close> after the
  \<^verbatim>\<open>if / else if / else\<close>; \<open>None\<close> is the branch that returns \<^verbatim>\<open>null\<close>.
\<close>

definition finalFinishFrames :: "state \<Rightarrow> string \<Rightarrow> real \<Rightarrow> NativeFramesResponse option" where
  "finalFinishFrames st tid finalEndTimestamp =
     (case finishCandidate st tid finalEndTimestamp of
        Some nf \<Rightarrow> Some nf
      | None \<Rightarrow> spanCandidate st finalEndTimestamp)"

definition prepareMeasurements ::
  "state \<Rightarrow> string \<Rightarrow> real \<Rightarrow> NativeFramesResponse \<Rightarrow> FramesMeasurements option" where
  "prepareMeasurements st tid finalEndTimestamp startFrames' =
     (case finalFinishFrames st tid finalEndTimestamp of
        None \<Rightarrow> None
      | Some ff \<Rightarrow>
          Some \<lparr>frames_total = totalFrames ff - totalFrames startFrames',
                frames_frozen = frozenFrames ff - frozenFrames startFrames',
                frames_slow = slowFrames ff - slowFrames startFrames'\<rparr>)"

section \<open>\<^verbatim>\<open>_processEvent\<close> after its \<^verbatim>\<open>await\<close>\<close>

text \<open>\<^verbatim>\<open>delete traceContext.data.__startFrames\<close>, on the event that holds the context.\<close>

definition delete_startFrames :: "Event \<Rightarrow> Event" where
  "delete_startFrames event =
     event\<lparr>ev_contexts :=
       map_option (\<lambda>cs. cs\<lparr>trace :=
         map_option (\<lambda>tc. tc\<lparr>data :=
           map_option (\<lambda>d. d\<lparr>startFrames := None\<rparr>) (data tc)\<rparr>) (trace cs)\<rparr>)
         (ev_contexts event)\<rparr>"

text \<open>
  The object spread \<^verbatim>\<open>{ ...(event.measurements ?? {}), ...measurements }\<close>.
\<close>

definition merge_measurements ::
  "(string \<rightharpoonup> real) option \<Rightarrow> FramesMeasurements \<Rightarrow> (string \<rightharpoonup> real)" where
  "merge_measurements old m =
     (case old of None \<Rightarrow> Map.empty | Some ms \<Rightarrow> ms)
       (''frames_total'' \<mapsto> of_int (frames_total m),
        ''frames_frozen'' \<mapsto> of_int (frames_frozen m),
        ''frames_slow'' \<mapsto> of_int (frames_slow m))"

text \<open>
  The code after the \<^verbatim>\<open>await\<close>, run with the value of the settled promise. The log
  lines are not modelled.
\<close>

definition processEvent_continue ::
  "state \<Rightarrow> suspended \<Rightarrow> FramesMeasurements option \<Rightarrow> state \<times> Event" where
  "processEvent_continue st s measurements =
     (case measurements of
        None \<Rightarrow> (st, delete_startFrames (s_event s))
      | Some m \<Rightarrow>
          (st\<lparr>finishFrames := (finishFrames st)(s_traceId s := None)\<rparr>,
           delete_startFrames
             ((s_event s)\<lparr>ev_measurements :=
                Some (merge_measurements (ev_measurements (s_event s)) m)\<rparr>)))"

text \<open>
  The microtask that runs a suspended call on, once its promise is settled: the event
  it returns is recorded under the handle of the promise.
\<close>

definition resume :: "state \<Rightarrow> nat \<Rightarrow> state" where
  "resume st p =
     (case awaiting st p of
        None \<Rightarrow> st
      | Some s \<Rightarrow>
          (case promises st p of
             None \<Rightarrow> st
           | Some r \<Rightarrow>
               (case returned st p of
                  Some e \<Rightarrow> st
                | None \<Rightarrow>
                    (let (st', e) = processEvent_continue st s r
                     in st'\<lparr>returned := (returned st')(p \<mapsto> e)\<rparr>))))"

text \<open>
  The end of a task of the event loop: the queued microtasks run in order. A
  continuation of \<^verbatim>\<open>_processEvent\<close> queues nothing.
\<close>

definition drain :: "state \<Rightarrow> state" where
  "drain st = foldl resume (st\<lparr>microtasks := []\<rparr>) (microtasks st)"

text \<open>
  The \<open>resolve\<close> function of a promise: a settled promise stays as it is; settling a
  promise queues the call that awaits it.
\<close>

definition resolve :: "state \<Rightarrow> nat \<Rightarrow> FramesMeasurements option \<Rightarrow> state" where
  "resolve st p r =
     (case promises st p of
        Some v \<Rightarrow> st
      | None \<Rightarrow>
          (let st1 = st\<lparr>promises := (promises st)(p \<mapsto> r)\<rparr> in
           case awaiting st1 p of
             None \<Rightarrow> st1
           | Some s \<Rightarrow> st1\<lparr>microtasks := microtasks st1 @ [p]\<rparr>))"

section \<open>\<^verbatim>\<open>_getFramesMeasurements\<close>\<close>

text \<open>
  The call returns the handle of its promise. With a finish record the promise is
  settled at once; otherwise the executor starts the timer of 2000 ms and stores the
  listener.
\<close>

definition getFramesMeasurements ::
  "state \<Rightarrow> string \<Rightarrow> real \<Rightarrow> NativeFramesResponse \<Rightarrow> state \<times> nat" where
  "getFramesMeasurements st tid finalEndTimestamp startFrames' =
     (let p = nextId st; k = Suc (nextId st) in
      if finishFrames st tid \<noteq> None
      then (st\<lparr>promises := (promises st)
                  (p \<mapsto> prepareMeasurements st tid finalEndTimestamp startFrames'),
               nextId := Suc p\<rparr>, p)
      else (st\<lparr>timers := (timers st)(k \<mapsto> (2000, WaiterTimeout tid p)),
               framesListeners := (framesListeners st)
                  (tid \<mapsto> \<lparr>l_traceId = tid, l_finalEndTimestamp = finalEndTimestamp,
                           l_startFrames = startFrames', l_promise = p, l_timeout = k\<rparr>),
               nextId := Suc k\<rparr>, p))"

text \<open>The body of a listener, and the body of the timeout callback.\<close>

definition invokeListener :: "state \<Rightarrow> listener \<Rightarrow> state" where
  "invokeListener st l =
     (let st1 = resolve st (l_promise l)
                  (prepareMeasurements st (l_traceId l) (l_finalEndTimestamp l) (l_startFrames l));
          st2 = st1\<lparr>timers := (timers st1)(l_timeout l := None)\<rparr>
      in st2\<lparr>framesListeners := (framesListeners st2)(l_traceId l := None)\<rparr>)"

definition waiterTimeout :: "state \<Rightarrow> string \<Rightarrow> nat \<Rightarrow> state" where
  "waiterTimeout st tid p =
     resolve (st\<lparr>framesListeners := (framesListeners st)(tid := None)\<rparr>) p None"

section \<open>\<^verbatim>\<open>_fetchFramesForTransaction\<close> and \<^verbatim>\<open>_cancelFinishFrames\<close>\<close>

text \<open>
  The part of \<^verbatim>\<open>_fetchFramesForTransaction\<close> from the \<^verbatim>\<open>_finishFrames.set\<close> on: store
  the record, call the listener of the trace if there is one, start the cleanup timer.
\<close>

definition storeFinishFrames ::
  "state \<Rightarrow> string \<Rightarrow> real \<Rightarrow> NativeFramesResponse option \<Rightarrow> state" where
  "storeFinishFrames st tid ts finishFrames' =
     (let st1 = st\<lparr>finishFrames := (finishFrames st)
                    (tid \<mapsto> \<lparr>timestamp = ts, nativeFrames = finishFrames'\<rparr>)\<rparr>;
          st2 = (case framesListeners st1 tid of
                   None \<Rightarrow> st1
                 | Some l \<Rightarrow> invokeListener st1 l)
      in st2\<lparr>timers := (timers st2)(nextId st2 \<mapsto> (2000, CancelFinishFrames tid)),
             nextId := Suc (nextId st2)\<rparr>)"

text \<open>
  The whole function, up to its \<^verbatim>\<open>await\<close>: \<open>now\<close> is the value of
  \<^verbatim>\<open>timestampInSeconds()\<close>. With start frames the native fetch is started and the rest
  waits for its result; without, \<^verbatim>\<open>finishFrames\<close> stays \<^verbatim>\<open>null\<close> and the rest runs at
  once.
\<close>

definition fetchFramesForTransaction :: "state \<Rightarrow> Transaction \<Rightarrow> real \<Rightarrow> state" where
  "fetchFramesForTransaction st transaction now =
     (case txData st (tx_ref transaction) of
        Some startFrames' \<Rightarrow>
          st\<lparr>fetches := (fetches st)(nextId st \<mapsto> FinishFetch (traceId transaction) now),
             nextId := Suc (nextId st)\<rparr>
      | None \<Rightarrow> storeFinishFrames st (traceId transaction) now None)"

definition cancelFinishFrames :: "state \<Rightarrow> string \<Rightarrow> state" where
  "cancelFinishFrames st tid =
     (if finishFrames st tid \<noteq> None
      then st\<lparr>finishFrames := (finishFrames st)(tid := None)\<rparr>
      else st)"

section \<open>The public hooks and \<^verbatim>\<open>_onSpanFinish\<close>\<close>

definition onTransactionStart :: "state \<Rightarrow> Transaction \<Rightarrow> state" where
  "onTransactionStart st transaction =
     st\<lparr>fetches := (fetches st)(nextId st \<mapsto> StartFetch (tx_ref transaction)),
        nextId := Suc (nextId st)\<rparr>"

definition onTransactionFinish :: "state \<Rightarrow> Transaction \<Rightarrow> real \<Rightarrow> state" where
  "onTransactionFinish st transaction now = fetchFramesForTransaction st transaction now"

definition onSpanFinish :: "state \<Rightarrow> real option \<Rightarrow> real \<Rightarrow> state" where
  "onSpanFinish st endTimestamp now =
     (if \<not> truthy_number endTimestamp
      then st\<lparr>fetches := (fetches st)(nextId st \<mapsto> SpanFinishFetch now),
              nextId := Suc (nextId st)\<rparr>
      else st)"

text \<open>
  The native fetch \<open>i\<close> resolves with \<open>result\<close> (\<open>None\<close> is \<^verbatim>\<open>null\<close>): its
  continuation runs.
\<close>

definition fetchResolved :: "state \<Rightarrow> nat \<Rightarrow> NativeFramesResponse option \<Rightarrow> state" where
  "fetchResolved st i result =
     (case fetches st i of
        None \<Rightarrow> st
      | Some c \<Rightarrow>
          (let st1 = st\<lparr>fetches := (fetches st)(i := None)\<rparr> in
           case c of
             StartFetch r \<Rightarrow>
               (case result of
                  None \<Rightarrow> st1
                | Some framesMetrics \<Rightarrow> st1\<lparr>txData := (txData st1)(r \<mapsto> framesMetrics)\<rparr>)
           | SpanFinishFetch ts \<Rightarrow>
               (case result of
                  None \<Rightarrow> st1
                | Some nf \<Rightarrow>
                    st1\<lparr>lastSpanFinishFrames :=
                          Some \<lparr>span_timestamp = ts, span_nativeFrames = nf\<rparr>\<rparr>)
           | FinishFetch tid ts \<Rightarrow> storeFinishFrames st1 tid ts result))"

text \<open>The timer \<open>k\<close> fires: its callback runs.\<close>

definition timerFired :: "state \<Rightarrow> nat \<Rightarrow> state" where
  "timerFired st k =
     (case timers st k of
        None \<Rightarrow> st
      | Some (delay, cb) \<Rightarrow>
          (let st1 = st\<lparr>timers := (timers st)(k := None)\<rparr> in
           case cb of
             WaiterTimeout tid p \<Rightarrow> waiterTimeout st1 tid p
           | CancelFinishFrames tid \<Rightarrow> cancelFinishFrames st1 tid))"

section \<open>\<^verbatim>\<open>_processEvent\<close> and the event processor\<close>

text \<open>The value of \<^verbatim>\<open>traceContext.data?.__startFrames\<close>.\<close>

definition startFrames_of :: "trace_context \<Rightarrow> NativeFramesResponse option" where
  "startFrames_of traceContext =
     (case data traceContext of None \<Rightarrow> None | Some d \<Rightarrow> startFrames d)"

text \<open>
  The function up to its \<^verbatim>\<open>await\<close>. An event that does not pass the two guards is
  returned as it is. Otherwise the call is suspended on the promise of
  \<^verbatim>\<open>_getFramesMeasurements\<close>; when that promise is settled already, the call is queued
  to run on at the end of the task.
\<close>

definition processEvent :: "state \<Rightarrow> Event \<Rightarrow> state \<times> outcome" where
  "processEvent st event =
     (if ev_type event = Some ''transaction'' \<and> truthy_string (ev_transaction event) then
        (case ev_contexts event of
           None \<Rightarrow> (st, Done event)
         | Some cs \<Rightarrow>
             (case trace cs of
                None \<Rightarrow> (st, Done event)
              | Some traceContext \<Rightarrow>
                  (case startFrames_of traceContext of
                     None \<Rightarrow> (st, Done event)
                   | Some startFrames' \<Rightarrow>
                       if trace_id traceContext \<noteq> [] \<and> truthy_number (ev_timestamp event)
                       then
                         (case ev_timestamp event of
                            None \<Rightarrow> (st, Done event)
                          | Some ts \<Rightarrow>
                              (let (st1, p) = getFramesMeasurements st
                                                (trace_id traceContext) ts startFrames';
                                   st2 = st1\<lparr>awaiting := (awaiting st1)
                                           (p \<mapsto> \<lparr>s_event = event,
                                                   s_traceId = trace_id traceContext\<rparr>)\<rparr>
                               in if promises st2 p \<noteq> None
                                  then (st2\<lparr>microtasks := microtasks st2 @ [p]\<rparr>, Pending p)
                                  else (st2, Pending p)))
                       else (st, Done event))))
      else (st, Done event))"

text \<open>
  The processor registered by the constructor; \<open>doesExist\<close> is the result of the
  availability check at this call.
\<close>

definition eventProcessor :: "bool \<Rightarrow> state \<Rightarrow> Event \<Rightarrow> state \<times> outcome" where
  "eventProcessor doesExist st event =
     (if doesExist then processEvent st event else (st, Done event))"

section \<open>Runs\<close>

text \<open>
  What can happen to the instrumentation: a hook is called, a native fetch resolves, a
  timer fires, an event reaches the processor. Each is one task of the event loop: the
  synchronous code, then the microtasks it has queued. Time is not modelled beyond the
  delay kept with each timer: a pending timer may fire at any later task, and a pending
  fetch may resolve at any later task.
\<close>

text \<open>
  Modelled from the spec: \<^verbatim>\<open>NATIVE.fetchNativeFrames\<close> (in \<^verbatim>\<open>../wrapper\<close>) is one
  asynchronous operation without arguments that resolves with a snapshot or with
  \<^verbatim>\<open>null\<close> and does not throw: the action \<open>FetchResolved\<close> carries what it resolves
  with. \<^verbatim>\<open>instrumentChildSpanFinish\<close> (in \<^verbatim>\<open>./utils\<close>) calls \<^verbatim>\<open>_onSpanFinish\<close>
  whenever a span of the transaction finishes, with the explicit end timestamp if there
  is one: the action \<open>SpanFinish\<close> is such a call. The second argument of
  \<open>TransactionFinish\<close> and of \<open>SpanFinish\<close> is the value of
  \<^verbatim>\<open>timestampInSeconds()\<close> at the call.
\<close>

datatype action =
  TransactionStart Transaction
| TransactionFinish Transaction real
| SpanFinish "real option" real
| FetchResolved nat "NativeFramesResponse option"
| TimerFired nat
| ProcessEvent bool Event

fun task :: "state \<Rightarrow> action \<Rightarrow> state" where
  "task st (TransactionStart transaction) = onTransactionStart st transaction"
| "task st (TransactionFinish transaction now) = onTransactionFinish st transaction now"
| "task st (SpanFinish endTimestamp now) = onSpanFinish st endTimestamp now"
| "task st (FetchResolved i result) = fetchResolved st i result"
| "task st (TimerFired k) = timerFired st k"
| "task st (ProcessEvent doesExist event) = fst (eventProcessor doesExist st event)"

definition step :: "state \<Rightarrow> action \<Rightarrow> state" where
  "step st a = drain (task st a)"

definition run :: "state \<Rightarrow> action list \<Rightarrow> state" where
  "run st as = foldl step st as"

text \<open>The value of \<^verbatim>\<open>contexts.trace.data.__startFrames\<close> of an event, if any.\<close>

definition event_startFrames :: "Event \<Rightarrow> NativeFramesResponse option" where
  "event_startFrames event =
     (case ev_contexts event of
        None \<Rightarrow> None
      | Some cs \<Rightarrow> (case trace cs of None \<Rightarrow> None | Some tc \<Rightarrow> startFrames_of tc))"

text \<open>An action that stores a finish record for the trace \<open>tid\<close>, in the state \<open>st\<close>.\<close>

fun stores_finish :: "state \<Rightarrow> action \<Rightarrow> string \<Rightarrow> bool" where
  "stores_finish st (TransactionFinish transaction now) tid =
     (traceId transaction = tid \<and> txData st (tx_ref transaction) = None)"
| "stores_finish st (FetchResolved i result) tid =
     (case fetches st i of Some (FinishFetch t ts) \<Rightarrow> t = tid | _ \<Rightarrow> False)"
| "stores_finish st a tid = False"

text \<open>
  A run from \<open>st\<close> in which no finish record is stored for \<open>tid\<close> and the timer \<open>k\<close>
  does not fire.
\<close>

fun quiet :: "string \<Rightarrow> nat \<Rightarrow> state \<Rightarrow> action list \<Rightarrow> bool" where
  "quiet tid k st [] = True"
| "quiet tid k st (a # as) =
     (\<not> stores_finish st a tid \<and> a \<noteq> TimerFired k \<and> quiet tid k (step st a) as)"

section \<open>The selection as the specification words it\<close>

text \<open>
  The order of candidates as the specification states it: the finish record of the trace
  if and only if its timestamp is within the tolerance, else the last span finish if and
  only if its timestamp is within the tolerance, else nothing. The tolerance test is the
  one of the code.
\<close>

definition prepareMeasurements_spec ::
  "state \<Rightarrow> string \<Rightarrow> real \<Rightarrow> NativeFramesResponse \<Rightarrow> FramesMeasurements option" where
  "prepareMeasurements_spec st tid finalEndTimestamp startFrames' =
     (let measure_from = (\<lambda>ff.
            \<lparr>frames_total = totalFrames ff - totalFrames startFrames',
             frames_frozen = frozenFrames ff - frozenFrames startFrames',
             frames_slow = slowFrames ff - slowFrames startFrames'\<rparr>) in
      case (case finishFrames st tid of
              None \<Rightarrow> None
            | Some finish \<Rightarrow>
                if \<bar>timestamp finish - finalEndTimestamp\<bar> < MARGIN_OF_ERROR_SECONDS
                then Some (nativeFrames finish) else None) of
        Some selected \<Rightarrow> map_option measure_from selected
      | None \<Rightarrow>
          (case lastSpanFinishFrames st of
             None \<Rightarrow> None
           | Some lastSpan \<Rightarrow>
               if \<bar>span_timestamp lastSpan - finalEndTimestamp\<bar> < MARGIN_OF_ERROR_SECONDS
               then Some (measure_from (span_nativeFrames lastSpan))
               else None))"

section \<open>Invariants of runs\<close>

text \<open>
  Handles are allocated from \<open>nextId\<close>: no handle at or above it is in use, and the
  handles kept in listeners, timers and the microtask queue lie below it.
\<close>

definition fresh :: "state \<Rightarrow> bool" where
  "fresh st \<longleftrightarrow>
     (\<forall>i. nextId st \<le> i \<longrightarrow> promises st i = None \<and> awaiting st i = None
            \<and> returned st i = None \<and> timers st i = None \<and> fetches st i = None)
   \<and> (\<forall>T l. framesListeners st T = Some l \<longrightarrow>
          l_promise l < nextId st \<and> l_timeout l < nextId st)
   \<and> (\<forall>k d T p. timers st k = Some (d, WaiterTimeout T p) \<longrightarrow> p < nextId st)
   \<and> (\<forall>p \<in> set (microtasks st). p < nextId st)"

text \<open>
  The promise \<open>p\<close> of a call for the trace \<open>tid\<close> is pending and its timer \<open>k\<close> is
  running; only a listener stored for \<open>tid\<close> can settle the promise or clear the timer,
  and no other timer settles it.
\<close>

definition waiting :: "string \<Rightarrow> nat \<Rightarrow> nat \<Rightarrow> state \<Rightarrow> bool" where
  "waiting tid k p st \<longleftrightarrow>
     timers st k = Some (2000, WaiterTimeout tid p) \<and> promises st p = None
   \<and> p < nextId st \<and> k < nextId st
   \<and> (\<forall>T l. framesListeners st T = Some l \<longrightarrow>
          (l_promise l = p \<or> l_timeout l = k) \<longrightarrow> T = tid)
   \<and> (\<forall>k' d T. timers st k' = Some (d, WaiterTimeout T p) \<longrightarrow> k' = k)"

text \<open>
  How the three maps of the class hang together: a trace with a finish record has no
  listener; a stored listener is stored under its own trace, its promise is pending, its
  timer is running and a call of \<^verbatim>\<open>_processEvent\<close> for that trace awaits its promise; and
  no two timers settle the same promise.
\<close>

definition linked :: "state \<Rightarrow> bool" where
  "linked st \<longleftrightarrow>
     (\<forall>T. finishFrames st T \<noteq> None \<longrightarrow> framesListeners st T = None)
   \<and> (\<forall>T l. framesListeners st T = Some l \<longrightarrow>
          l_traceId l = T \<and> promises st (l_promise l) = None
        \<and> timers st (l_timeout l) = Some (2000, WaiterTimeout T (l_promise l))
        \<and> (\<exists>s. awaiting st (l_promise l) = Some s \<and> s_traceId s = T))
   \<and> (\<forall>k k' d d' T T' p. timers st k = Some (d, WaiterTimeout T p)
          \<and> timers st k' = Some (d', WaiterTimeout T' p) \<longrightarrow> k = k')"

section \<open>How the operations change the state\<close>

lemma foldl_resume_other [simp]:
  "framesListeners (foldl resume st ps) = framesListeners st"
  "lastSpanFinishFrames (foldl resume st ps) = lastSpanFinishFrames st"
  "txData (foldl resume st ps) = txData st"
  "fetches (foldl resume st ps) = fetches st"
  "timers (foldl resume st ps) = timers st"
  "promises (foldl resume st ps) = promises st"
  "awaiting (foldl resume st ps) = awaiting st"
  "microtasks (foldl resume st ps) = microtasks st"
  "nextId (foldl resume st ps) = nextId st"
  by (induction ps arbitrary: st;
      simp add: resume_def processEvent_continue_def split: option.splits)+

lemma drain_other [simp]:
  "framesListeners (drain st) = framesListeners st"
  "lastSpanFinishFrames (drain st) = lastSpanFinishFrames st"
  "txData (drain st) = txData st"
  "fetches (drain st) = fetches st"
  "timers (drain st) = timers st"
  "promises (drain st) = promises st"
  "awaiting (drain st) = awaiting st"
  "microtasks (drain st) = []"
  "nextId (drain st) = nextId st"
  by (simp_all add: drain_def)

lemma returned_resume:
  "returned (resume st a) i = Some e \<Longrightarrow> returned st i = Some e \<or> i = a"
  by (auto simp: resume_def processEvent_continue_def split: option.splits if_splits)

lemma returned_foldl_resume:
  "returned (foldl resume st ps) i = Some e \<Longrightarrow> returned st i = Some e \<or> i \<in> set ps"
proof (induction ps arbitrary: st)
  case Nil
  then show ?case by simp
next
  case (Cons a ps)
  from Cons.IH [OF Cons.prems [simplified]] show ?case
    by (auto dest: returned_resume)
qed

lemma resolve_proj [simp]:
  "framesListeners (resolve st p r) = framesListeners st"
  "lastSpanFinishFrames (resolve st p r) = lastSpanFinishFrames st"
  "txData (resolve st p r) = txData st"
  "fetches (resolve st p r) = fetches st"
  "timers (resolve st p r) = timers st"
  "awaiting (resolve st p r) = awaiting st"
  "returned (resolve st p r) = returned st"
  "finishFrames (resolve st p r) = finishFrames st"
  "nextId (resolve st p r) = nextId st"
  "promises (resolve st p r) = (if promises st p = None then (promises st)(p \<mapsto> r) else promises st)"
  "microtasks (resolve st p r) =
     (if promises st p = None \<and> awaiting st p \<noteq> None then microtasks st @ [p] else microtasks st)"
  by (auto simp: resolve_def Let_def split: option.splits)

lemma invokeListener_proj [simp]:
  "framesListeners (invokeListener st l) = (framesListeners st)(l_traceId l := None)"
  "lastSpanFinishFrames (invokeListener st l) = lastSpanFinishFrames st"
  "txData (invokeListener st l) = txData st"
  "fetches (invokeListener st l) = fetches st"
  "timers (invokeListener st l) = (timers st)(l_timeout l := None)"
  "awaiting (invokeListener st l) = awaiting st"
  "returned (invokeListener st l) = returned st"
  "finishFrames (invokeListener st l) = finishFrames st"
  "nextId (invokeListener st l) = nextId st"
  "promises (invokeListener st l) =
     (if promises st (l_promise l) = None
      then (promises st)(l_promise l \<mapsto>
             prepareMeasurements st (l_traceId l) (l_finalEndTimestamp l) (l_startFrames l))
      else promises st)"
  "microtasks (invokeListener st l) =
     (if promises st (l_promise l) = None \<and> awaiting st (l_promise l) \<noteq> None
      then microtasks st @ [l_promise l] else microtasks st)"
  by (simp_all add: invokeListener_def Let_def)

lemma waiterTimeout_proj [simp]:
  "framesListeners (waiterTimeout st tid p) = (framesListeners st)(tid := None)"
  "lastSpanFinishFrames (waiterTimeout st tid p) = lastSpanFinishFrames st"
  "txData (waiterTimeout st tid p) = txData st"
  "fetches (waiterTimeout st tid p) = fetches st"
  "timers (waiterTimeout st tid p) = timers st"
  "awaiting (waiterTimeout st tid p) = awaiting st"
  "returned (waiterTimeout st tid p) = returned st"
  "finishFrames (waiterTimeout st tid p) = finishFrames st"
  "nextId (waiterTimeout st tid p) = nextId st"
  "promises (waiterTimeout st tid p) =
     (if promises st p = None then (promises st)(p \<mapsto> None) else promises st)"
  "microtasks (waiterTimeout st tid p) =
     (if promises st p = None \<and> awaiting st p \<noteq> None then microtasks st @ [p] else microtasks st)"
  by (simp_all add: waiterTimeout_def)

lemma storeFinishFrames_proj [simp]:
  "framesListeners (storeFinishFrames st tid ts ff) =
     (case framesListeners st tid of None \<Rightarrow> framesListeners st
      | Some l \<Rightarrow> (framesListeners st)(l_traceId l := None))"
  "lastSpanFinishFrames (storeFinishFrames st tid ts ff) = lastSpanFinishFrames st"
  "txData (storeFinishFrames st tid ts ff) = txData st"
  "fetches (storeFinishFrames st tid ts ff) = fetches st"
  "timers (storeFinishFrames st tid ts ff) =
     (case framesListeners st tid of None \<Rightarrow> timers st
      | Some l \<Rightarrow> (timers st)(l_timeout l := None))(nextId st \<mapsto> (2000, CancelFinishFrames tid))"
  "awaiting (storeFinishFrames st tid ts ff) = awaiting st"
  "returned (storeFinishFrames st tid ts ff) = returned st"
  "finishFrames (storeFinishFrames st tid ts ff) =
     (finishFrames st)(tid \<mapsto> \<lparr>timestamp = ts, nativeFrames = ff\<rparr>)"
  "nextId (storeFinishFrames st tid ts ff) = Suc (nextId st)"
  by (simp_all add: storeFinishFrames_def Let_def split: option.splits)

lemma storeFinishFrames_promises:
  "promises (storeFinishFrames st tid ts ff) =
     (case framesListeners st tid of None \<Rightarrow> promises st
      | Some l \<Rightarrow>
         if promises st (l_promise l) = None
         then (promises st)(l_promise l \<mapsto>
             prepareMeasurements (st\<lparr>finishFrames := (finishFrames st)(tid \<mapsto> \<lparr>timestamp = ts, nativeFrames = ff\<rparr>)\<rparr>)
                (l_traceId l) (l_finalEndTimestamp l) (l_startFrames l))
         else promises st)"
  "microtasks (storeFinishFrames st tid ts ff) =
     (case framesListeners st tid of None \<Rightarrow> microtasks st
      | Some l \<Rightarrow>
         if promises st (l_promise l) = None \<and> awaiting st (l_promise l) \<noteq> None
         then microtasks st @ [l_promise l] else microtasks st)"
  by (simp_all add: storeFinishFrames_def Let_def split: option.splits)


section \<open>A pending call stays pending until its timer fires\<close>

lemma processEvent_cases:
  obtains (pass) "processEvent st ev = (st, Done ev)"
  | (call) tc ts S where "trace_id tc \<noteq> []" "ts \<noteq> 0" "ev_timestamp ev = Some ts"
      "startFrames_of tc = Some S" "ev_type ev = Some ''transaction''"
      "truthy_string (ev_transaction ev)" "\<exists>cs. ev_contexts ev = Some cs \<and> trace cs = Some tc"
      "processEvent st ev =
         (let (st1, p) = getFramesMeasurements st (trace_id tc) ts S;
              st2 = st1\<lparr>awaiting := (awaiting st1)(p \<mapsto> \<lparr>s_event = ev, s_traceId = trace_id tc\<rparr>)\<rparr>
          in if promises st2 p \<noteq> None
             then (st2\<lparr>microtasks := microtasks st2 @ [p]\<rparr>, Pending p)
             else (st2, Pending p))"
proof (cases "ev_type ev = Some ''transaction'' \<and> truthy_string (ev_transaction ev)")
  case False
  then show ?thesis by (intro pass) (auto simp add: processEvent_def)
next
  case guard: True
  show ?thesis
  proof (cases "ev_contexts ev")
    case None
    then show ?thesis by (intro pass) (simp add: processEvent_def)
  next
    case cs: (Some cs)
    show ?thesis
    proof (cases "trace cs")
      case None
      then show ?thesis using cs by (intro pass) (simp add: processEvent_def)
    next
      case tc: (Some tc)
      show ?thesis
      proof (cases "startFrames_of tc")
        case None
        then show ?thesis using cs tc by (intro pass) (simp add: processEvent_def)
      next
        case S: (Some S)
        show ?thesis
        proof (cases "ev_timestamp ev")
          case None
          then show ?thesis using cs tc S by (intro pass) (simp add: processEvent_def)
        next
          case ts: (Some ts)
          show ?thesis
          proof (cases "trace_id tc \<noteq> [] \<and> ts \<noteq> 0")
            case False
            then show ?thesis using cs tc S ts
              by (intro pass) (auto simp add: processEvent_def truthy_number_def)
          next
            case True
            show ?thesis
              by (rule call [of tc ts S])
                 (use True guard cs tc S ts in \<open>auto simp add: processEvent_def truthy_number_def\<close>)
          qed
        qed
      qed
    qed
  qed
qed

lemma waiting_task:
  assumes "waiting tid k p st" "\<not> stores_finish st a tid" "a \<noteq> TimerFired k"
  shows "waiting tid k p (task st a)"
proof (cases a)
  case (TransactionStart x1)
  then show ?thesis using assms by (auto simp: waiting_def onTransactionStart_def)
next
  case (TransactionFinish x21 x22)
  then show ?thesis using assms
    by (auto simp: waiting_def onTransactionFinish_def fetchFramesForTransaction_def storeFinishFrames_promises
             split: option.splits if_splits)
next
  case (SpanFinish x31 x32)
  then show ?thesis using assms by (auto simp: waiting_def onSpanFinish_def)
next
  case (FetchResolved x41 x42)
  then show ?thesis using assms
    by (auto simp: waiting_def fetchResolved_def Let_def storeFinishFrames_promises
             split: option.splits if_splits fetch_continuation.splits)
next
  case (TimerFired x5)
  then show ?thesis using assms
    by (auto simp: waiting_def timerFired_def Let_def cancelFinishFrames_def
             split: option.splits if_splits timer_callback.splits)
next
  case (ProcessEvent x61 x62)
  show ?thesis
  proof (cases rule: processEvent_cases [of st x62])
    case pass
    then show ?thesis using assms ProcessEvent by (simp add: eventProcessor_def)
  next
    case (call tc ts S)
    then show ?thesis using assms ProcessEvent
      by (auto simp: eventProcessor_def waiting_def getFramesMeasurements_def Let_def
               split: if_splits)
  qed
qed

lemma waiting_drain: "waiting tid k p (drain st) = waiting tid k p st"
  by (simp add: waiting_def)

lemma waiting_step:
  "waiting tid k p st \<Longrightarrow> \<not> stores_finish st a tid \<Longrightarrow> a \<noteq> TimerFired k \<Longrightarrow> waiting tid k p (step st a)"
  by (simp add: step_def waiting_drain waiting_task)

lemma waiting_run:
  "waiting tid k p st \<Longrightarrow> quiet tid k st as \<Longrightarrow> waiting tid k p (run st as)"
  by (induction as arbitrary: st) (simp_all add: run_def waiting_step)

lemma waiting_fired:
  assumes "waiting tid k p st"
  shows "promises (timerFired st k) p = Some None" "framesListeners (timerFired st k) tid = None"
        "timers (timerFired st k) k = None"
  using assms by (simp_all add: waiting_def timerFired_def)


section \<open>Handles stay fresh\<close>

lemma fresh_init: "fresh init_state"
  by (simp add: fresh_def init_state_def)

lemma freshI:
  assumes "\<And>i. nextId st \<le> i \<Longrightarrow> promises st i = None \<and> awaiting st i = None
              \<and> returned st i = None \<and> timers st i = None \<and> fetches st i = None"
    and "\<And>T l. framesListeners st T = Some l \<Longrightarrow> l_promise l < nextId st \<and> l_timeout l < nextId st"
    and "\<And>k d T p. timers st k = Some (d, WaiterTimeout T p) \<Longrightarrow> p < nextId st"
    and "\<And>p. p \<in> set (microtasks st) \<Longrightarrow> p < nextId st"
  shows "fresh st"
  using assms unfolding fresh_def by blast

lemma fresh_listener:
  "fresh st \<Longrightarrow> framesListeners st T = Some l \<Longrightarrow> l_promise l < nextId st \<and> l_timeout l < nextId st"
  by (simp add: fresh_def)

lemma fresh_timer:
  "fresh st \<Longrightarrow> timers st k = Some (d, WaiterTimeout T p) \<Longrightarrow> p < nextId st"
  unfolding fresh_def by blast

lemma fresh_unused:
  "fresh st \<Longrightarrow> nextId st \<le> i \<Longrightarrow>
     promises st i = None \<and> awaiting st i = None \<and> returned st i = None
     \<and> timers st i = None \<and> fetches st i = None"
  by (simp add: fresh_def)

lemma fresh_micro:
  "fresh st \<Longrightarrow> p \<in> set (microtasks st) \<Longrightarrow> p < nextId st"
  by (simp add: fresh_def)

lemmas fresh_dest = fresh_listener fresh_timer fresh_micro

lemma fresh_task:
  assumes "fresh st"
  shows "fresh (task st a)"
proof (cases a)
  case (TransactionStart x1)
  then show ?thesis
    by (intro freshI)
       (auto simp: onTransactionStart_def less_Suc_eq fresh_unused [OF assms] dest: fresh_dest [OF assms])
next
  case (TransactionFinish x21 x22)
  then show ?thesis
    by (intro freshI)
       (auto simp: onTransactionFinish_def fetchFramesForTransaction_def
             storeFinishFrames_promises less_Suc_eq fresh_unused [OF assms]
             split: option.splits if_splits dest: fresh_dest [OF assms])
next
  case (SpanFinish x31 x32)
  show ?thesis
  proof (cases "truthy_number x31")
    case True
    then show ?thesis using SpanFinish assms by (simp add: onSpanFinish_def)
  next
    case False
    then show ?thesis using SpanFinish
      by (intro freshI)
         (auto simp: onSpanFinish_def less_Suc_eq fresh_unused [OF assms]
               dest: fresh_dest [OF assms])
  qed
next
  case (FetchResolved x41 x42)
  then show ?thesis
    by (intro freshI)
       (auto simp: fetchResolved_def Let_def storeFinishFrames_promises less_Suc_eq fresh_unused [OF assms]
             split: option.splits if_splits fetch_continuation.splits
             dest: fresh_dest [OF assms])
next
  case (TimerFired x5)
  then show ?thesis
    by (intro freshI)
       (auto simp: timerFired_def Let_def cancelFinishFrames_def fresh_unused [OF assms]
             split: option.splits if_splits timer_callback.splits
             dest: fresh_dest [OF assms])
next
  case (ProcessEvent x61 x62)
  show ?thesis
  proof (cases rule: processEvent_cases [of st x62])
    case pass
    then show ?thesis using assms ProcessEvent by (simp add: eventProcessor_def)
  next
    case (call tc ts S)
    then show ?thesis using ProcessEvent
      by (intro freshI)
         (auto simp: eventProcessor_def getFramesMeasurements_def Let_def less_Suc_eq fresh_unused [OF assms]
               split: if_splits dest: fresh_dest [OF assms])
  qed
qed

lemma returned_drain:
  "returned (drain st) i = Some e \<Longrightarrow> returned st i = Some e \<or> i \<in> set (microtasks st)"
  unfolding drain_def by (drule returned_foldl_resume) simp

lemma fresh_drain:
  assumes "fresh st"
  shows "fresh (drain st)"
proof -
  have "returned (drain st) i = None" if "nextId st \<le> i" for i
  proof (cases "returned (drain st) i")
    case None
    then show ?thesis .
  next
    case (Some e)
    from returned_drain [OF Some] assms that show ?thesis
      by (auto simp: fresh_def)
  qed
  then show ?thesis using assms by (simp add: fresh_def)
qed

lemma fresh_step: "fresh st \<Longrightarrow> fresh (step st a)"
  by (simp add: step_def fresh_drain fresh_task)

lemma fresh_run: "fresh st \<Longrightarrow> fresh (run st as)"
  by (induction as arbitrary: st) (simp_all add: run_def fresh_step)

lemma fresh_reachable: "fresh (run init_state as)"
  by (simp add: fresh_run fresh_init)

lemma getFramesMeasurements_waiting:
  assumes "fresh st" "finishFrames st tid = None"
  shows "getFramesMeasurements st tid fe S =
           (st\<lparr>timers := (timers st)(Suc (nextId st) \<mapsto> (2000, WaiterTimeout tid (nextId st))),
               framesListeners := (framesListeners st)
                  (tid \<mapsto> \<lparr>l_traceId = tid, l_finalEndTimestamp = fe,
                           l_startFrames = S, l_promise = nextId st, l_timeout = Suc (nextId st)\<rparr>),
               nextId := Suc (Suc (nextId st))\<rparr>, nextId st)"
    and "waiting tid (Suc (nextId st)) (nextId st) (fst (getFramesMeasurements st tid fe S))"
  using assms(2) fresh_unused [OF assms(1), of "nextId st"]
    fresh_unused [OF assms(1), of "Suc (nextId st)"]
  by (auto simp: getFramesMeasurements_def Let_def waiting_def
           dest: fresh_listener [OF assms(1)] fresh_timer [OF assms(1)])

section \<open>Listeners, timers and finish records in a run\<close>

lemma linkedI:
  assumes "\<And>T. finishFrames st T \<noteq> None \<Longrightarrow> framesListeners st T = None"
    and "\<And>T l. framesListeners st T = Some l \<Longrightarrow>
          l_traceId l = T \<and> promises st (l_promise l) = None
        \<and> timers st (l_timeout l) = Some (2000, WaiterTimeout T (l_promise l))
        \<and> (\<exists>s. awaiting st (l_promise l) = Some s \<and> s_traceId s = T)"
    and "\<And>k k' d d' T T' p. timers st k = Some (d, WaiterTimeout T p) \<Longrightarrow>
          timers st k' = Some (d', WaiterTimeout T' p) \<Longrightarrow> k = k'"
  shows "linked st"
  using assms unfolding linked_def by blast

lemma linked_record: "linked st \<Longrightarrow> finishFrames st T = Some r \<Longrightarrow> framesListeners st T = None"
  by (simp add: linked_def)

lemma linked_listener:
  "linked st \<Longrightarrow> framesListeners st T = Some l \<Longrightarrow>
     l_traceId l = T \<and> promises st (l_promise l) = None
     \<and> timers st (l_timeout l) = Some (2000, WaiterTimeout T (l_promise l))
     \<and> (\<exists>s. awaiting st (l_promise l) = Some s \<and> s_traceId s = T)"
  by (simp add: linked_def)

lemma linked_timer:
  "linked st \<Longrightarrow> timers st k = Some (d, WaiterTimeout T p) \<Longrightarrow>
     timers st k' = Some (d', WaiterTimeout T' p) \<Longrightarrow> k = k'"
  unfolding linked_def by blast

text \<open>Two listeners stored under different traces have different promises and timers.\<close>

lemma linked_distinct:
  assumes "linked st" "framesListeners st T = Some l" "framesListeners st T' = Some l'" "T \<noteq> T'"
  shows "l_promise l \<noteq> l_promise l'" "l_timeout l \<noteq> l_timeout l'"
proof -
  from linked_listener [OF assms(1,2)] linked_listener [OF assms(1,3)]
  have t: "timers st (l_timeout l) = Some (2000, WaiterTimeout T (l_promise l))"
    and t': "timers st (l_timeout l') = Some (2000, WaiterTimeout T' (l_promise l'))"
    by simp_all
  from t t' assms(4) show ne: "l_timeout l \<noteq> l_timeout l'" by auto
  show "l_promise l \<noteq> l_promise l'"
  proof
    assume "l_promise l = l_promise l'"
    with t t' have "l_timeout l = l_timeout l'"
      using linked_timer [OF assms(1), of "l_timeout l" 2000 T "l_promise l" "l_timeout l'" 2000 T']
      by simp
    with ne show False by simp
  qed
qed

text \<open>The listener of a trace and a timer for another trace.\<close>

lemma linked_timer_listener:
  assumes "linked st" "timers st k = Some (d, WaiterTimeout T p)"
    "framesListeners st T' = Some l'" "T \<noteq> T'"
  shows "l_promise l' \<noteq> p" "l_timeout l' \<noteq> k"
proof -
  from linked_listener [OF assms(1,3)]
  have t': "timers st (l_timeout l') = Some (2000, WaiterTimeout T' (l_promise l'))"
    by simp
  from t' assms(2,4) show ne: "l_timeout l' \<noteq> k" by auto
  show "l_promise l' \<noteq> p"
  proof
    assume "l_promise l' = p"
    with t' assms(2) have "l_timeout l' = k"
      using linked_timer [OF assms(1), of "l_timeout l'" 2000 T' p k d T]
      by simp
    with ne show False by simp
  qed
qed

lemma linked_init: "linked init_state"
  by (simp add: linked_def init_state_def)

lemma finishFrames_resume:
  "finishFrames (resume st p) T = Some r \<Longrightarrow> finishFrames st T = Some r"
  by (auto simp: resume_def processEvent_continue_def split: option.splits if_splits)

lemma finishFrames_foldl_resume:
  "finishFrames (foldl resume st ps) T = Some r \<Longrightarrow> finishFrames st T = Some r"
proof (induction ps arbitrary: st)
  case Nil
  then show ?case by simp
next
  case (Cons a ps)
  from Cons.IH [OF Cons.prems [simplified]] show ?case
    by (rule finishFrames_resume)
qed

lemma finishFrames_drain:
  "finishFrames (drain st) T = Some r \<Longrightarrow> finishFrames st T = Some r"
  unfolding drain_def by (drule finishFrames_foldl_resume) simp

lemma linked_drain:
  assumes "linked st"
  shows "linked (drain st)"
proof (intro linkedI, goal_cases)
  case (1 T)
  then obtain r where "finishFrames (drain st) T = Some r" by auto
  then have "finishFrames st T = Some r" by (rule finishFrames_drain)
  with assms show ?case by (simp add: linked_record)
next
  case (2 T l)
  then show ?case using linked_listener [OF assms, of T l] by simp
next
  case (3 k k' d d' T T' p)
  then show ?case using linked_timer [OF assms, of k d T p k' d' T'] by simp
qed

lemma linked_store:
  assumes l: "linked st" and f: "fresh st"
  shows "linked (storeFinishFrames st tid ts ff)"
proof (cases "framesListeners st tid")
  case None
  show ?thesis
  proof (intro linkedI, goal_cases)
    case (1 T)
    then show ?case using None linked_record [OF l, of T]
      by (auto split: if_splits)
  next
    case (2 T l')
    then have in_st: "framesListeners st T = Some l'" using None by simp
    from linked_listener [OF l in_st] fresh_listener [OF f in_st]
    show ?case using None by (auto simp: storeFinishFrames_promises)
  next
    case (3 k k' d d' T T' p)
    then show ?case using None linked_timer [OF l, of k d T p k' d' T']
      by (auto split: if_splits)
  qed
next
  case (Some l0)
  from linked_listener [OF l Some] have l0: "l_traceId l0 = tid" by simp
  show ?thesis
  proof (intro linkedI, goal_cases)
    case (1 T)
    then show ?case using Some l0 linked_record [OF l, of T]
      by (auto split: if_splits)
  next
    case (2 T l')
    then have in_st: "framesListeners st T = Some l'" and ne: "tid \<noteq> T"
      using Some l0 by (auto split: if_splits)
    from linked_listener [OF l in_st] fresh_listener [OF f in_st]
      linked_distinct [OF l Some in_st ne]
    show ?case using Some by (auto simp: storeFinishFrames_promises)
  next
    case (3 k k' d d' T T' p)
    then show ?case using Some linked_timer [OF l, of k d T p k' d' T']
      by (auto split: if_splits)
  qed
qed


lemma linked_fetches [simp]: "linked (st\<lparr>fetches := x\<rparr>) = linked st"
  by (simp add: linked_def)

lemma linked_txData [simp]: "linked (st\<lparr>txData := x\<rparr>) = linked st"
  by (simp add: linked_def)

lemma linked_lastSpan [simp]: "linked (st\<lparr>lastSpanFinishFrames := x\<rparr>) = linked st"
  by (simp add: linked_def)

lemma linked_nextId [simp]: "linked (st\<lparr>nextId := x\<rparr>) = linked st"
  by (simp add: linked_def)

lemma linked_microtasks [simp]: "linked (st\<lparr>microtasks := x\<rparr>) = linked st"
  by (simp add: linked_def)

lemma fresh_fetches_remove: "fresh st \<Longrightarrow> fresh (st\<lparr>fetches := (fetches st)(i := None)\<rparr>)"
  by (simp add: fresh_def)

lemma linked_timerFired:
  assumes l: "linked st"
  shows "linked (timerFired st k)"
proof (cases "timers st k")
  case None
  then show ?thesis using l by (simp add: timerFired_def)
next
  case (Some dc)
  obtain d cb where dc: "dc = (d, cb)" by (cases dc)
  show ?thesis
  proof (cases cb)
    case (WaiterTimeout T p)
    have tk: "timers st k = Some (d, WaiterTimeout T p)" using Some dc WaiterTimeout by simp
    have eq: "timerFired st k = waiterTimeout (st\<lparr>timers := (timers st)(k := None)\<rparr>) T p"
      using tk by (simp add: timerFired_def)
    show ?thesis unfolding eq
    proof (intro linkedI, goal_cases)
      case (1 T1)
      then show ?case using linked_record [OF l, of T1] by (auto split: if_splits)
    next
      case (2 T' l')
      then have in_st: "framesListeners st T' = Some l'" and ne: "T \<noteq> T'"
        by (auto split: if_splits)
      from linked_listener [OF l in_st] linked_timer_listener [OF l tk in_st ne]
      show ?case by auto
    next
      case (3 k1 k2 d1 d2 T1 T2 p1)
      then show ?case using linked_timer [OF l, of k1 d1 T1 p1 k2 d2 T2]
        by (auto split: if_splits)
    qed
  next
    case (CancelFinishFrames T)
    have tk: "timers st k = Some (d, CancelFinishFrames T)"
      using Some dc CancelFinishFrames by simp
    have eq: "timerFired st k = cancelFinishFrames (st\<lparr>timers := (timers st)(k := None)\<rparr>) T"
      using tk by (simp add: timerFired_def)
    show ?thesis unfolding eq
    proof (intro linkedI, goal_cases)
      case (1 T1)
      then show ?case using linked_record [OF l, of T1]
        by (auto simp: cancelFinishFrames_def split: if_splits)
    next
      case (2 T' l')
      then have in_st: "framesListeners st T' = Some l'"
        by (auto simp: cancelFinishFrames_def split: if_splits)
      from linked_listener [OF l in_st] tk
      show ?case by (auto simp: cancelFinishFrames_def)
    next
      case (3 k1 k2 d1 d2 T1 T2 p1)
      then show ?case using linked_timer [OF l, of k1 d1 T1 p1 k2 d2 T2]
        by (auto simp: cancelFinishFrames_def split: if_splits)
    qed
  qed
qed

lemma linked_processEvent:
  assumes l: "linked st" and f: "fresh st"
  shows "linked (fst (processEvent st ev))"
proof (cases rule: processEvent_cases [of st ev])
  case pass
  then show ?thesis using l by simp
next
  case (call tc ts S)
  let ?T = "trace_id tc"
  let ?p = "nextId st"
  note un = fresh_unused [OF f, of "nextId st"] fresh_unused [OF f, of "Suc (nextId st)"]
  show ?thesis
  proof (cases "finishFrames st ?T")
    case None
    have eq: "fst (processEvent st ev) =
       st\<lparr>timers := (timers st)(Suc ?p \<mapsto> (2000, WaiterTimeout ?T ?p)),
          framesListeners := (framesListeners st)
             (?T \<mapsto> \<lparr>l_traceId = ?T, l_finalEndTimestamp = ts,
                      l_startFrames = S, l_promise = ?p, l_timeout = Suc ?p\<rparr>),
          nextId := Suc (Suc ?p),
          awaiting := (awaiting st)(?p \<mapsto> \<lparr>s_event = ev, s_traceId = ?T\<rparr>)\<rparr>"
      using call(8) None un by (simp add: getFramesMeasurements_def Let_def)
    show ?thesis unfolding eq
    proof (intro linkedI, goal_cases)
      case (1 T1)
      then show ?case using linked_record [OF l, of T1] None by auto
    next
      case (2 T' l')
      show ?case
      proof (cases "T' = ?T")
        case True
        then show ?thesis using 2 un by auto
      next
        case False
        then have in_st: "framesListeners st T' = Some l'" using 2 by simp
        from linked_listener [OF l in_st] fresh_listener [OF f in_st]
        show ?thesis by auto
      qed
    next
      case (3 k1 k2 d1 d2 T1 T2 p1)
      then show ?case
        using linked_timer [OF l, of k1 d1 T1 p1 k2 d2 T2]
          fresh_timer [OF f, of k1 d1 T1 p1] fresh_timer [OF f, of k2 d2 T2 p1]
        by (auto split: if_splits)
    qed
  next
    case (Some r)
    have eq: "fst (processEvent st ev) =
       st\<lparr>promises := (promises st)(?p \<mapsto> prepareMeasurements st ?T ts S),
          nextId := Suc ?p,
          awaiting := (awaiting st)(?p \<mapsto> \<lparr>s_event = ev, s_traceId = ?T\<rparr>),
          microtasks := microtasks st @ [?p]\<rparr>"
      using call(8) Some by (simp add: getFramesMeasurements_def Let_def)
    show ?thesis unfolding eq
    proof (intro linkedI, goal_cases)
      case (1 T1)
      then show ?case using linked_record [OF l, of T1] by auto
    next
      case (2 T' l')
      then have in_st: "framesListeners st T' = Some l'" by simp
      from linked_listener [OF l in_st] fresh_listener [OF f in_st]
      show ?case by auto
    next
      case (3 k1 k2 d1 d2 T1 T2 p1)
      then show ?case
        using linked_timer [OF l, of k1 d1 T1 p1 k2 d2 T2] by auto
    qed
  qed
qed

lemma linked_task:
  assumes l: "linked st" and f: "fresh st"
  shows "linked (task st a)"
proof (cases a)
  case (TransactionStart x1)
  then show ?thesis using l by (simp add: onTransactionStart_def)
next
  case (TransactionFinish tx now)
  then show ?thesis using l linked_store [OF l f]
    by (simp add: onTransactionFinish_def fetchFramesForTransaction_def split: option.splits)
next
  case (SpanFinish x31 x32)
  then show ?thesis using l by (simp add: onSpanFinish_def)
next
  case (FetchResolved i result)
  show ?thesis
  proof (cases "fetches st i")
    case None
    then show ?thesis using l FetchResolved by (simp add: fetchResolved_def)
  next
    case (Some c)
    let ?st1 = "st\<lparr>fetches := (fetches st)(i := None)\<rparr>"
    have l1: "linked ?st1" using l by simp
    have f1: "fresh ?st1" using f by (rule fresh_fetches_remove)
    show ?thesis using Some FetchResolved l linked_store [OF l1 f1]
      by (cases c) (simp_all add: fetchResolved_def Let_def split: option.splits)
  qed
next
  case (TimerFired k)
  then show ?thesis using linked_timerFired [OF l] by simp
next
  case (ProcessEvent d ev)
  then show ?thesis using l linked_processEvent [OF l f] by (simp add: eventProcessor_def)
qed

lemma linked_step: "linked st \<Longrightarrow> fresh st \<Longrightarrow> linked (step st a)"
  by (simp add: step_def linked_drain linked_task)

lemma reachable_inv_from:
  "linked st \<Longrightarrow> fresh st \<Longrightarrow> microtasks st = [] \<Longrightarrow>
     linked (run st as) \<and> fresh (run st as) \<and> microtasks (run st as) = []"
proof (induction as arbitrary: st)
  case Nil
  then show ?case by (simp add: run_def)
next
  case (Cons a as)
  have "linked (step st a)" using Cons.prems by (simp add: linked_step)
  moreover have "fresh (step st a)" using Cons.prems by (simp add: fresh_step)
  moreover have "microtasks (step st a) = []" by (simp add: step_def)
  ultimately show ?case using Cons.IH [of "step st a"] by (simp add: run_def)
qed

lemma reachable_inv:
  "linked (run init_state as)" "fresh (run init_state as)" "microtasks (run init_state as) = []"
  using reachable_inv_from [OF linked_init fresh_init, of as] by (simp_all add: init_state_def)

section \<open>The last span finish and the measurements along a run\<close>

lemma lastSpan_processEvent [simp]:
  "lastSpanFinishFrames (fst (processEvent st ev)) = lastSpanFinishFrames st"
  by (cases rule: processEvent_cases [of st ev])
     (simp_all add: getFramesMeasurements_def Let_def)

lemma lastSpan_step:
  "lastSpanFinishFrames (step st a) =
     (case a of
        FetchResolved j (Some nf') \<Rightarrow>
          (case fetches st j of
             Some (SpanFinishFetch ts') \<Rightarrow> Some \<lparr>span_timestamp = ts', span_nativeFrames = nf'\<rparr>
           | _ \<Rightarrow> lastSpanFinishFrames st)
      | _ \<Rightarrow> lastSpanFinishFrames st)"
  by (cases a)
     (simp_all add: step_def onTransactionStart_def onTransactionFinish_def
        fetchFramesForTransaction_def onSpanFinish_def fetchResolved_def timerFired_def
        cancelFinishFrames_def eventProcessor_def Let_def
        split: option.splits fetch_continuation.splits timer_callback.splits)

lemma lastSpan_step_kept:
  "lastSpanFinishFrames st \<noteq> None \<Longrightarrow> lastSpanFinishFrames (step st a) \<noteq> None"
  by (simp add: lastSpan_step split: action.splits option.splits fetch_continuation.splits)

lemma lastSpan_run_kept:
  "lastSpanFinishFrames st \<noteq> None \<Longrightarrow> lastSpanFinishFrames (run st as) \<noteq> None"
proof (induction as arbitrary: st)
  case Nil
  then show ?case by (simp add: run_def)
next
  case (Cons a as)
  from Cons.IH [OF lastSpan_step_kept [OF Cons.prems, of a]]
  show ?case by (simp add: run_def)
qed

lemma prepareMeasurements_cong:
  "finishFrames st' = finishFrames st \<Longrightarrow> lastSpanFinishFrames st' = lastSpanFinishFrames st \<Longrightarrow>
     prepareMeasurements st' tid fe S = prepareMeasurements st tid fe S"
proof -
  assume a: "finishFrames st' = finishFrames st" "lastSpanFinishFrames st' = lastSpanFinishFrames st"
  have "finishCandidate st' tid fe = finishCandidate st tid fe"
    by (simp add: finishCandidate_def a)
  moreover have "spanCandidate st' fe = spanCandidate st fe"
    by (simp add: spanCandidate_def a)
  ultimately have "finalFinishFrames st' tid fe = finalFinishFrames st tid fe"
    by (simp add: finalFinishFrames_def split: option.splits)
  then show ?thesis
    by (simp add: prepareMeasurements_def)
qed

section \<open>The continuation of a suspended call\<close>

lemma event_startFrames_delete [simp]: "event_startFrames (delete_startFrames e) = None"
  by (simp add: event_startFrames_def delete_startFrames_def startFrames_of_def
      split: option.splits)

lemma delete_startFrames_fields [simp]:
  "ev_type (delete_startFrames e) = ev_type e"
  "ev_transaction (delete_startFrames e) = ev_transaction e"
  "ev_timestamp (delete_startFrames e) = ev_timestamp e"
  "ev_measurements (delete_startFrames e) = ev_measurements e"
  by (simp_all add: delete_startFrames_def)

lemma merge_measurements_apply:
  "merge_measurements old m key =
     (if key = ''frames_slow'' then Some (of_int (frames_slow m))
      else if key = ''frames_frozen'' then Some (of_int (frames_frozen m))
      else if key = ''frames_total'' then Some (of_int (frames_total m))
      else (case old of None \<Rightarrow> None | Some ms \<Rightarrow> ms key))"
  by (simp add: merge_measurements_def split: option.splits)

lemma resume_suspended:
  assumes "awaiting st p = Some s" "promises st p = Some r" "returned st p = None"
  shows "returned (resume st p) p = Some (snd (processEvent_continue st s r))"
    and "finishFrames (resume st p) = finishFrames (fst (processEvent_continue st s r))"
  using assms by (simp_all add: resume_def split: prod.splits)

lemma processEvent_call:
  assumes "ev_type event = Some ''transaction''" "truthy_string (ev_transaction event)"
    "ev_contexts event = Some cs" "trace cs = Some tc" "trace_id tc = T" "T \<noteq> []"
    "startFrames_of tc = Some S" "ev_timestamp event = Some ts" "ts \<noteq> 0"
  shows "processEvent st event =
         (let (st1, p) = getFramesMeasurements st T ts S;
              st2 = st1\<lparr>awaiting := (awaiting st1)(p \<mapsto> \<lparr>s_event = event, s_traceId = T\<rparr>)\<rparr>
          in if promises st2 p \<noteq> None
             then (st2\<lparr>microtasks := microtasks st2 @ [p]\<rparr>, Pending p)
             else (st2, Pending p))"
  using assms by (simp add: processEvent_def truthy_number_def)

section \<open>A suspended call stays suspended until its promise is settled\<close>

lemma processEvent_proj:
  "returned (fst (processEvent st ev)) = returned st"
  "finishFrames (fst (processEvent st ev)) = finishFrames st"
  "q < nextId st \<Longrightarrow> awaiting (fst (processEvent st ev)) q = awaiting st q"
  by (cases rule: processEvent_cases [of st ev];
      simp add: getFramesMeasurements_def Let_def)+

lemma returned_task [simp]: "returned (task st a) = returned st"
  by (cases a)
     (simp_all add: onTransactionStart_def onTransactionFinish_def
        fetchFramesForTransaction_def onSpanFinish_def fetchResolved_def timerFired_def
        cancelFinishFrames_def eventProcessor_def Let_def processEvent_proj
        split: option.splits fetch_continuation.splits timer_callback.splits)

lemma awaiting_task: "q < nextId st \<Longrightarrow> awaiting (task st a) q = awaiting st q"
  by (cases a)
     (simp_all add: onTransactionStart_def onTransactionFinish_def
        fetchFramesForTransaction_def onSpanFinish_def fetchResolved_def timerFired_def
        cancelFinishFrames_def eventProcessor_def Let_def processEvent_proj
        split: option.splits fetch_continuation.splits timer_callback.splits)

lemma microtasks_store:
  "x \<in> set (microtasks (storeFinishFrames st tid ts ff)) \<Longrightarrow> x \<notin> set (microtasks st) \<Longrightarrow>
     promises (storeFinishFrames st tid ts ff) x \<noteq> None"
  by (auto simp: storeFinishFrames_promises split: option.splits if_splits)

lemma microtasks_task_settled:
  assumes "microtasks st = []" "x \<in> set (microtasks (task st a))"
  shows "promises (task st a) x \<noteq> None"
proof (cases a)
  case (TransactionStart x1)
  then show ?thesis using assms by (simp add: onTransactionStart_def)
next
  case (TransactionFinish tx now)
  then show ?thesis using assms microtasks_store [of x st "traceId tx" now None]
    by (auto simp: onTransactionFinish_def fetchFramesForTransaction_def split: option.splits)
next
  case (SpanFinish x31 x32)
  then show ?thesis using assms by (simp add: onSpanFinish_def split: if_splits)
next
  case (FetchResolved i result)
  show ?thesis
  proof (cases "fetches st i")
    case None
    then show ?thesis using FetchResolved assms by (simp add: fetchResolved_def)
  next
    case (Some c)
    then show ?thesis using FetchResolved assms
      microtasks_store [of x "st\<lparr>fetches := (fetches st)(i := None)\<rparr>" _ _ result]
      by (cases c) (auto simp: fetchResolved_def Let_def split: option.splits)
  qed
next
  case (TimerFired k)
  then show ?thesis using assms
    by (auto simp: timerFired_def cancelFinishFrames_def Let_def
        split: option.splits timer_callback.splits if_splits)
next
  case (ProcessEvent d ev)
  show ?thesis
  proof (cases rule: processEvent_cases [of st ev])
    case pass
    then show ?thesis using ProcessEvent assms
      by (cases d) (simp_all add: eventProcessor_def)
  next
    case (call tc ts S)
    then show ?thesis using ProcessEvent assms
      by (cases d)
         (auto simp: eventProcessor_def getFramesMeasurements_def Let_def split: if_splits)
  qed
qed

lemma suspended_step:
  assumes w: "waiting T k q st" and w': "waiting T k q (step st a)"
    and s: "awaiting st q = Some s" "returned st q = None" and m: "microtasks st = []"
  shows "awaiting (step st a) q = Some s \<and> returned (step st a) q = None"
proof -
  have q: "q < nextId st" using w by (simp add: waiting_def)
  have aw: "awaiting (step st a) q = Some s"
    using s(1) awaiting_task [OF q, of a] by (simp add: step_def)
  have pend: "promises (task st a) q = None"
    using w' by (simp add: waiting_def step_def)
  have "returned (step st a) q = None"
  proof (cases "returned (step st a) q")
    case None
    then show ?thesis .
  next
    case (Some e)
    then have "returned (task st a) q = Some e \<or> q \<in> set (microtasks (task st a))"
      unfolding step_def by (rule returned_drain)
    with s(2) have "q \<in> set (microtasks (task st a))" by simp
    from microtasks_task_settled [OF m this] pend show ?thesis by simp
  qed
  with aw show ?thesis by simp
qed

lemma suspended_run:
  assumes "waiting T k q st" "awaiting st q = Some s" "returned st q = None"
    "microtasks st = []" "quiet T k st as"
  shows "waiting T k q (run st as) \<and> awaiting (run st as) q = Some s
       \<and> returned (run st as) q = None \<and> microtasks (run st as) = []"
  using assms
proof (induction as arbitrary: st)
  case Nil
  then show ?case by (simp add: run_def)
next
  case (Cons a as)
  from Cons.prems(5) have q: "\<not> stores_finish st a T" "a \<noteq> TimerFired k"
    "quiet T k (step st a) as" by simp_all
  have w': "waiting T k q (step st a)" using Cons.prems(1) q(1,2) by (rule waiting_step)
  from suspended_step [OF Cons.prems(1) w' Cons.prems(2,3,4)]
  have s': "awaiting (step st a) q = Some s" "returned (step st a) q = None" by simp_all
  have m': "microtasks (step st a) = []" by (simp add: step_def)
  from Cons.IH [OF w' s' m' q(3)] show ?case by (simp add: run_def)
qed

lemma waiting_call_times_out:
  assumes "waiting T k q st" "awaiting st q = Some s" "returned st q = None"
    "microtasks st = []" "quiet T k st as"
  shows "promises (step (run st as) (TimerFired k)) q = Some None"
    and "returned (step (run st as) (TimerFired k)) q = Some (delete_startFrames (s_event s))"
    and "framesListeners (step (run st as) (TimerFired k)) T = None"
proof -
  let ?st = "run st as"
  from suspended_run [OF assms]
  have w: "waiting T k q ?st" and a: "awaiting ?st q = Some s" and r: "returned ?st q = None"
    and m: "microtasks ?st = []" by simp_all
  from w have t: "timers ?st k = Some (2000, WaiterTimeout T q)" and p: "promises ?st q = None"
    by (simp_all add: waiting_def)
  show "promises (step ?st (TimerFired k)) q = Some None"
    using t p by (simp add: step_def timerFired_def)
  show "framesListeners (step ?st (TimerFired k)) T = None"
    using t p by (simp add: step_def timerFired_def)
  show "returned (step ?st (TimerFired k)) q = Some (delete_startFrames (s_event s))"
    using t p a r m
    by (simp add: step_def timerFired_def drain_def resume_def processEvent_continue_def)
qed


section \<open>The step that completes a call with measurements\<close>

lemma waiting_awaiting [simp]: "waiting T k q (st\<lparr>awaiting := x\<rparr>) = waiting T k q st"
  by (simp add: waiting_def)

lemma drain_empty: "microtasks st = [] \<Longrightarrow> drain st = st"
  by (cases st) (simp add: drain_def)

lemma drain_single:
  "microtasks st = [p] \<Longrightarrow> drain st = resume (st\<lparr>microtasks := []\<rparr>) p"
  by (simp add: drain_def)

lemma store_consumed:
  assumes lk: "linked st" and mt: "microtasks st = []"
    and p: "p \<in> set (microtasks (storeFinishFrames st T' ts ff))"
    and a: "awaiting st p = Some s"
  shows "s_traceId s = T'" "framesListeners (storeFinishFrames st T' ts ff) T' = None"
    "microtasks (storeFinishFrames st T' ts ff) = [p]"
proof -
  from p mt obtain l where l: "framesListeners st T' = Some l" and pl: "p = l_promise l"
    and pend: "promises st (l_promise l) = None"
    by (auto simp: storeFinishFrames_promises split: option.splits if_splits)
  from linked_listener [OF lk l] a pl
  show "s_traceId s = T'" by auto
  from linked_listener [OF lk l] l
  show "framesListeners (storeFinishFrames st T' ts ff) T' = None" by simp
  from l pl pend a mt show "microtasks (storeFinishFrames st T' ts ff) = [p]"
    by (simp add: storeFinishFrames_promises)
qed

lemma task_consumed:
  assumes lk: "linked st" and fr: "fresh st" and mt: "microtasks st = []"
    and p: "p \<in> set (microtasks (task st a))"
    and a: "awaiting (task st a) p = Some s"
    and m: "promises (task st a) p = Some (Some m)"
  shows "framesListeners (task st a) (s_traceId s) = None \<and> microtasks (task st a) = [p]"
proof (cases a)
  case (TransactionStart x1)
  then show ?thesis using p mt by (simp add: onTransactionStart_def)
next
  case (TransactionFinish tx now)
  show ?thesis
  proof (cases "txData st (tx_ref tx)")
    case None
    then have eq: "task st a = storeFinishFrames st (traceId tx) now None"
      using TransactionFinish by (simp add: onTransactionFinish_def fetchFramesForTransaction_def)
    from a have a': "awaiting st p = Some s" by (simp add: eq)
    from store_consumed [OF lk mt p [unfolded eq] a'] show ?thesis by (simp add: eq)
  next
    case (Some S)
    then show ?thesis using TransactionFinish p mt
      by (simp add: onTransactionFinish_def fetchFramesForTransaction_def)
  qed
next
  case (SpanFinish x31 x32)
  then show ?thesis using p mt by (simp add: onSpanFinish_def split: if_splits)
next
  case (FetchResolved i result)
  show ?thesis
  proof (cases "fetches st i")
    case None
    then show ?thesis using FetchResolved p mt by (simp add: fetchResolved_def)
  next
    case (Some c)
    let ?st1 = "st\<lparr>fetches := (fetches st)(i := None)\<rparr>"
    show ?thesis
    proof (cases c)
      case (StartFetch r)
      then show ?thesis using Some FetchResolved p mt
        by (simp add: fetchResolved_def Let_def split: option.splits)
    next
      case (SpanFinishFetch ts)
      then show ?thesis using Some FetchResolved p mt
        by (simp add: fetchResolved_def Let_def split: option.splits)
    next
      case (FinishFetch T' ts)
      then have eq: "task st a = storeFinishFrames ?st1 T' ts result"
        using Some FetchResolved by (simp add: fetchResolved_def)
      have lk1: "linked ?st1" using lk by simp
      have mt1: "microtasks ?st1 = []" using mt by simp
      from a have a': "awaiting ?st1 p = Some s" by (simp add: eq)
      from store_consumed [OF lk1 mt1 p [unfolded eq] a'] show ?thesis by (simp add: eq)
    qed
  qed
next
  case (TimerFired k)
  then show ?thesis using p mt m
    by (auto simp: timerFired_def cancelFinishFrames_def Let_def
        split: option.splits timer_callback.splits if_splits)
next
  case (ProcessEvent d ev)
  show ?thesis
  proof (cases d)
    case False
    then show ?thesis using ProcessEvent p mt by (simp add: eventProcessor_def)
  next
    case True
    show ?thesis
    proof (cases rule: processEvent_cases [of st ev])
      case pass
      then show ?thesis using ProcessEvent True p mt by (simp add: eventProcessor_def)
    next
      case (call tc ts S)
      show ?thesis
      proof (cases "finishFrames st (trace_id tc)")
        case None
        then show ?thesis using ProcessEvent True call(8) p mt
            fresh_unused [OF fr, of "nextId st"]
          by (simp add: eventProcessor_def getFramesMeasurements_def Let_def)
      next
        case (Some r)
        then have eq: "task st a =
           st\<lparr>promises := (promises st)(nextId st \<mapsto> prepareMeasurements st (trace_id tc) ts S),
              nextId := Suc (nextId st),
              awaiting := (awaiting st)(nextId st \<mapsto> \<lparr>s_event = ev, s_traceId = trace_id tc\<rparr>),
              microtasks := [nextId st]\<rparr>"
          using ProcessEvent True call(8) mt
          by (simp add: eventProcessor_def getFramesMeasurements_def Let_def)
        from p have pn: "p = nextId st" by (simp add: eq)
        with a have "s_traceId s = trace_id tc" by (auto simp: eq)
        with linked_record [OF lk Some] pn show ?thesis by (simp add: eq)
      qed
    qed
  qed
qed

lemma step_consumed:
  assumes lk: "linked st" and fr: "fresh st" and mt: "microtasks st = []"
    and fin: "returned st p = None" "returned (step st a) p = Some e"
      "promises (step st a) p = Some (Some m)" "awaiting (step st a) p = Some s"
  shows "finishFrames (step st a) (s_traceId s) = None"
    and "framesListeners (step st a) (s_traceId s) = None"
proof -
  let ?st1 = "task st a"
  from fin(2) have "returned ?st1 p = Some e \<or> p \<in> set (microtasks ?st1)"
    unfolding step_def by (rule returned_drain)
  with fin(1) have p: "p \<in> set (microtasks ?st1)" by simp
  from fin(3,4) have a: "awaiting ?st1 p = Some s" and m: "promises ?st1 p = Some (Some m)"
    by (simp_all add: step_def)
  from task_consumed [OF lk fr mt p a m]
  have l: "framesListeners ?st1 (s_traceId s) = None" and q: "microtasks ?st1 = [p]"
    by simp_all
  have eq: "step st a = resume (?st1\<lparr>microtasks := []\<rparr>) p"
    by (simp add: step_def drain_single [OF q])
  show "framesListeners (step st a) (s_traceId s) = None"
    using l by (simp add: step_def)
  show "finishFrames (step st a) (s_traceId s) = None"
    using a m fin(1) by (simp add: eq resume_def processEvent_continue_def)
qed

section \<open>Evaluation on concrete runs\<close>

lemmas prepare_defs = prepareMeasurements_def finalFinishFrames_def finishCandidate_def
  spanCandidate_def MARGIN_OF_ERROR_SECONDS_def

lemmas exec_defs = run_def step_def drain_def resume_def resolve_def processEvent_continue_def
  onTransactionStart_def onTransactionFinish_def onSpanFinish_def fetchResolved_def timerFired_def
  fetchFramesForTransaction_def storeFinishFrames_def invokeListener_def waiterTimeout_def
  cancelFinishFrames_def getFramesMeasurements_def processEvent_def eventProcessor_def
  startFrames_of_def truthy_number_def truthy_string_def init_state_def Let_def
  delete_startFrames_def merge_measurements_def event_startFrames_def

section \<open>The choice of the finish snapshot\<close>

text \<open>
  Claim C1, as stated: \<^verbatim>\<open>prepareMeasurements\<close> takes the finish record of the trace if
  and only if its timestamp is within the tolerance of the final end timestamp, else the
  last span finish if and only if its timestamp is within the tolerance, else nothing.
  This fails on the code: a finish record whose snapshot is \<^verbatim>\<open>null\<close> is not taken,
  whatever its timestamp. With such a record at the final end timestamp itself and a
  last span finish at the same time, the selection as stated yields no measurements, and
  the code yields the measurements of the last span finish.
\<close>

theorem prepareMeasurements_spec_counterexample:
  "prepareMeasurements_spec
     (init_state\<lparr>finishFrames := [''t'' \<mapsto> \<lparr>timestamp = 10, nativeFrames = None\<rparr>],
        lastSpanFinishFrames := Some \<lparr>span_timestamp = 10,
           span_nativeFrames = \<lparr>totalFrames = 150, slowFrames = 5, frozenFrames = 1\<rparr>\<rparr>\<rparr>)
     ''t'' 10 \<lparr>totalFrames = 100, slowFrames = 2, frozenFrames = 0\<rparr> = None
   \<and> prepareMeasurements
     (init_state\<lparr>finishFrames := [''t'' \<mapsto> \<lparr>timestamp = 10, nativeFrames = None\<rparr>],
        lastSpanFinishFrames := Some \<lparr>span_timestamp = 10,
           span_nativeFrames = \<lparr>totalFrames = 150, slowFrames = 5, frozenFrames = 1\<rparr>\<rparr>\<rparr>)
     ''t'' 10 \<lparr>totalFrames = 100, slowFrames = 2, frozenFrames = 0\<rparr>
     = Some \<lparr>frames_total = 50, frames_frozen = 1, frames_slow = 3\<rparr>"
  by (simp add: prepare_defs prepareMeasurements_spec_def init_state_def)

text \<open>
  Claim C1, amended: the candidates are tried in this order. The finish record stored
  for the trace is taken if and only if it has a snapshot and its timestamp differs from
  the final end timestamp by less than 0.05 s; else the last span finish is taken if and
  only if its timestamp differs from the final end timestamp by less than 0.05 s; else
  the result is \<^verbatim>\<open>null\<close>. The measurements are the differences between the snapshot
  taken and the start snapshot.
\<close>

theorem prepareMeasurements_selection:
  "(\<forall>finish F. finishFrames st tid = Some finish \<and> nativeFrames finish = Some F
        \<and> \<bar>timestamp finish - fe\<bar> < 0.05 \<longrightarrow>
      prepareMeasurements st tid fe S =
        Some \<lparr>frames_total = totalFrames F - totalFrames S,
              frames_frozen = frozenFrames F - frozenFrames S,
              frames_slow = slowFrames F - slowFrames S\<rparr>)
   \<and> (\<not> (\<exists>finish F. finishFrames st tid = Some finish \<and> nativeFrames finish = Some F
             \<and> \<bar>timestamp finish - fe\<bar> < 0.05) \<longrightarrow>
        (\<forall>lastSpan. lastSpanFinishFrames st = Some lastSpan
             \<and> \<bar>span_timestamp lastSpan - fe\<bar> < 0.05 \<longrightarrow>
           prepareMeasurements st tid fe S =
             Some \<lparr>frames_total = totalFrames (span_nativeFrames lastSpan) - totalFrames S,
                   frames_frozen = frozenFrames (span_nativeFrames lastSpan) - frozenFrames S,
                   frames_slow = slowFrames (span_nativeFrames lastSpan) - slowFrames S\<rparr>)
      \<and> (\<not> (\<exists>lastSpan. lastSpanFinishFrames st = Some lastSpan
             \<and> \<bar>span_timestamp lastSpan - fe\<bar> < 0.05) \<longrightarrow>
           prepareMeasurements st tid fe S = None))"
  by (auto simp: prepare_defs split: option.splits)

theorem prepareMeasurements_selection_witness:
  "prepareMeasurements
     (init_state\<lparr>finishFrames := [''t'' \<mapsto> \<lparr>timestamp = 10.02,
          nativeFrames = Some \<lparr>totalFrames = 140, slowFrames = 5, frozenFrames = 1\<rparr>\<rparr>]\<rparr>)
     ''t'' 10 \<lparr>totalFrames = 100, slowFrames = 2, frozenFrames = 0\<rparr>
     = Some \<lparr>frames_total = 40, frames_frozen = 1, frames_slow = 3\<rparr>
   \<and> prepareMeasurements
     (init_state\<lparr>finishFrames := [''t'' \<mapsto> \<lparr>timestamp = 10.3,
          nativeFrames = Some \<lparr>totalFrames = 140, slowFrames = 5, frozenFrames = 1\<rparr>\<rparr>],
        lastSpanFinishFrames := Some \<lparr>span_timestamp = 10.01,
           span_nativeFrames = \<lparr>totalFrames = 150, slowFrames = 4, frozenFrames = 2\<rparr>\<rparr>\<rparr>)
     ''t'' 10 \<lparr>totalFrames = 100, slowFrames = 2, frozenFrames = 0\<rparr>
     = Some \<lparr>frames_total = 50, frames_frozen = 2, frames_slow = 2\<rparr>
   \<and> prepareMeasurements
     (init_state\<lparr>finishFrames := [''t'' \<mapsto> \<lparr>timestamp = 10.3,
          nativeFrames = Some \<lparr>totalFrames = 140, slowFrames = 5, frozenFrames = 1\<rparr>\<rparr>]\<rparr>)
     ''t'' 10 \<lparr>totalFrames = 100, slowFrames = 2, frozenFrames = 0\<rparr> = None"
  using
    prepareMeasurements_selection [of
      "init_state\<lparr>finishFrames := [''t'' \<mapsto> \<lparr>timestamp = 10.02,
          nativeFrames = Some \<lparr>totalFrames = 140, slowFrames = 5, frozenFrames = 1\<rparr>\<rparr>]\<rparr>"
      "''t''" 10 "\<lparr>totalFrames = 100, slowFrames = 2, frozenFrames = 0\<rparr>"]
    prepareMeasurements_selection [of
      "init_state\<lparr>finishFrames := [''t'' \<mapsto> \<lparr>timestamp = 10.3,
          nativeFrames = Some \<lparr>totalFrames = 140, slowFrames = 5, frozenFrames = 1\<rparr>\<rparr>],
        lastSpanFinishFrames := Some \<lparr>span_timestamp = 10.01,
           span_nativeFrames = \<lparr>totalFrames = 150, slowFrames = 4, frozenFrames = 2\<rparr>\<rparr>\<rparr>"
      "''t''" 10 "\<lparr>totalFrames = 100, slowFrames = 2, frozenFrames = 0\<rparr>"]
    prepareMeasurements_selection [of
      "init_state\<lparr>finishFrames := [''t'' \<mapsto> \<lparr>timestamp = 10.3,
          nativeFrames = Some \<lparr>totalFrames = 140, slowFrames = 5, frozenFrames = 1\<rparr>\<rparr>]\<rparr>"
      "''t''" 10 "\<lparr>totalFrames = 100, slowFrames = 2, frozenFrames = 0\<rparr>"]
  by (simp add: init_state_def)

section \<open>The measurements\<close>

text \<open>
  Claim C3: for every start snapshot \<open>S\<close> and every selected finish snapshot \<open>F\<close>, the
  three measurements are the differences of the counters of \<open>F\<close> and of \<open>S\<close>, with no
  clamping: they are negative when the counters of \<open>F\<close> are the smaller ones. Without a
  selected snapshot there are no measurements.
\<close>

theorem prepareMeasurements_deltas:
  "(\<forall>F. finalFinishFrames st tid fe = Some F \<longrightarrow>
      (\<exists>m. prepareMeasurements st tid fe S = Some m
         \<and> frames_total m = totalFrames F - totalFrames S
         \<and> frames_slow m = slowFrames F - slowFrames S
         \<and> frames_frozen m = frozenFrames F - frozenFrames S
         \<and> (totalFrames F < totalFrames S \<longrightarrow> frames_total m < 0)
         \<and> (slowFrames F < slowFrames S \<longrightarrow> frames_slow m < 0)
         \<and> (frozenFrames F < frozenFrames S \<longrightarrow> frames_frozen m < 0)))
   \<and> (finalFinishFrames st tid fe = None \<longrightarrow> prepareMeasurements st tid fe S = None)"
  by (simp add: prepareMeasurements_def)

theorem prepareMeasurements_deltas_witness:
  "finalFinishFrames
     (init_state\<lparr>finishFrames := [''t'' \<mapsto> \<lparr>timestamp = 10.02,
          nativeFrames = Some \<lparr>totalFrames = 5, slowFrames = 1, frozenFrames = 0\<rparr>\<rparr>]\<rparr>)
     ''t'' 10 = Some \<lparr>totalFrames = 5, slowFrames = 1, frozenFrames = 0\<rparr>
   \<and> prepareMeasurements
     (init_state\<lparr>finishFrames := [''t'' \<mapsto> \<lparr>timestamp = 10.02,
          nativeFrames = Some \<lparr>totalFrames = 5, slowFrames = 1, frozenFrames = 0\<rparr>\<rparr>]\<rparr>)
     ''t'' 10 \<lparr>totalFrames = 100, slowFrames = 2, frozenFrames = 1\<rparr>
     = Some \<lparr>frames_total = - 95, frames_frozen = - 1, frames_slow = - 1\<rparr>
   \<and> finalFinishFrames init_state ''t'' 10 = None
   \<and> prepareMeasurements init_state ''t'' 10
        \<lparr>totalFrames = 100, slowFrames = 2, frozenFrames = 1\<rparr> = None"
proof -
  have sel: "finalFinishFrames
     (init_state\<lparr>finishFrames := [''t'' \<mapsto> \<lparr>timestamp = 10.02,
          nativeFrames = Some \<lparr>totalFrames = 5, slowFrames = 1, frozenFrames = 0\<rparr>\<rparr>]\<rparr>)
     ''t'' 10 = Some \<lparr>totalFrames = 5, slowFrames = 1, frozenFrames = 0\<rparr>"
    by (simp add: finalFinishFrames_def finishCandidate_def MARGIN_OF_ERROR_SECONDS_def
        init_state_def)
  have none: "finalFinishFrames init_state ''t'' 10 = None"
    by (simp add: finalFinishFrames_def finishCandidate_def spanCandidate_def init_state_def)
  from sel none
    prepareMeasurements_deltas [of
      "init_state\<lparr>finishFrames := [''t'' \<mapsto> \<lparr>timestamp = 10.02,
          nativeFrames = Some \<lparr>totalFrames = 5, slowFrames = 1, frozenFrames = 0\<rparr>\<rparr>]\<rparr>"
      "''t''" 10 "\<lparr>totalFrames = 100, slowFrames = 2, frozenFrames = 1\<rparr>"]
    prepareMeasurements_deltas [of init_state "''t''" 10
      "\<lparr>totalFrames = 100, slowFrames = 2, frozenFrames = 1\<rparr>"]
  show ?thesis by auto
qed

section \<open>A finish record without snapshot\<close>

text \<open>
  Claim C10: a finish record with a \<^verbatim>\<open>null\<close> snapshot does not end the selection. When
  the last span finish lies within 0.05 s of the final end timestamp, the measurements
  are computed from its snapshot. This holds for any such record, and so for the two
  ways in which the code stores one: the finish of a transaction without start frames,
  and a native fetch that resolves with \<^verbatim>\<open>null\<close>.
\<close>

theorem prepareMeasurements_null_finish:
  assumes "lastSpanFinishFrames st = Some lastSpan"
    and "\<bar>span_timestamp lastSpan - fe\<bar> < 0.05"
  shows "(\<forall>finish. finishFrames st tid = Some finish \<and> nativeFrames finish = None \<longrightarrow>
      prepareMeasurements st tid fe S =
        Some \<lparr>frames_total = totalFrames (span_nativeFrames lastSpan) - totalFrames S,
              frames_frozen = frozenFrames (span_nativeFrames lastSpan) - frozenFrames S,
              frames_slow = slowFrames (span_nativeFrames lastSpan) - slowFrames S\<rparr>)
   \<and> (\<forall>transaction now. txData st (tx_ref transaction) = None \<and> traceId transaction = tid \<longrightarrow>
        prepareMeasurements (fetchFramesForTransaction st transaction now) tid fe S =
        Some \<lparr>frames_total = totalFrames (span_nativeFrames lastSpan) - totalFrames S,
              frames_frozen = frozenFrames (span_nativeFrames lastSpan) - frozenFrames S,
              frames_slow = slowFrames (span_nativeFrames lastSpan) - slowFrames S\<rparr>)
   \<and> (\<forall>i ts. fetches st i = Some (FinishFetch tid ts) \<longrightarrow>
        prepareMeasurements (fetchResolved st i None) tid fe S =
        Some \<lparr>frames_total = totalFrames (span_nativeFrames lastSpan) - totalFrames S,
              frames_frozen = frozenFrames (span_nativeFrames lastSpan) - frozenFrames S,
              frames_slow = slowFrames (span_nativeFrames lastSpan) - slowFrames S\<rparr>)"
  using assms
  by (auto simp: prepare_defs fetchFramesForTransaction_def fetchResolved_def)

theorem prepareMeasurements_null_finish_witness:
  "prepareMeasurements
     (fetchFramesForTransaction
        (run init_state [SpanFinish None 10.01,
           FetchResolved 0 (Some \<lparr>totalFrames = 150, slowFrames = 4, frozenFrames = 2\<rparr>)])
        \<lparr>tx_ref = 0, traceId = ''t''\<rparr> 10.3)
     ''t'' 10 \<lparr>totalFrames = 100, slowFrames = 2, frozenFrames = 0\<rparr>
   = Some \<lparr>frames_total = 50, frames_frozen = 2, frames_slow = 2\<rparr>"
proof -
  let ?st = "run init_state [SpanFinish None 10.01,
           FetchResolved 0 (Some \<lparr>totalFrames = 150, slowFrames = 4, frozenFrames = 2\<rparr>)]"
  let ?l = "\<lparr>span_timestamp = 10.01,
             span_nativeFrames = \<lparr>totalFrames = 150, slowFrames = 4, frozenFrames = 2\<rparr>\<rparr>"
  have a: "lastSpanFinishFrames ?st = Some ?l"
    by (simp add: exec_defs)
  have b: "\<bar>span_timestamp ?l - 10\<bar> < 0.05" by simp
  have c: "txData ?st (tx_ref \<lparr>tx_ref = 0, traceId = ''t''\<rparr>) = None"
    by (simp add: exec_defs)
  from prepareMeasurements_null_finish [OF a b, of "''t''"
      "\<lparr>totalFrames = 100, slowFrames = 2, frozenFrames = 0\<rparr>"] c
  have "prepareMeasurements (fetchFramesForTransaction ?st \<lparr>tx_ref = 0, traceId = ''t''\<rparr> 10.3)
          ''t'' 10 \<lparr>totalFrames = 100, slowFrames = 2, frozenFrames = 0\<rparr>
        = Some \<lparr>frames_total = totalFrames (span_nativeFrames ?l) - 100,
              frames_frozen = frozenFrames (span_nativeFrames ?l) - 0,
              frames_slow = slowFrames (span_nativeFrames ?l) - 2\<rparr>"
    by simp
  then show ?thesis by simp
qed

section \<open>The timeout of a waiting call\<close>

text \<open>
  Claim C4: a call of \<^verbatim>\<open>getFramesMeasurements\<close> for a trace without finish record
  stores a listener for the trace and starts a timer of 2000 ms; its promise is pending.
  In every run that follows in which no finish record is stored for the trace, the
  promise stays pending and the timer stays set, and when the timer fires the listener
  of the trace is removed and the promise is settled with \<^verbatim>\<open>null\<close>.
\<close>

theorem getFramesMeasurements_timeout:
  assumes "finishFrames (run init_state as0) tid = None"
    and "getFramesMeasurements (run init_state as0) tid fe S = (st1, p)"
  shows "\<exists>k l. framesListeners st1 tid = Some l \<and> l_promise l = p \<and> l_timeout l = k
           \<and> timers st1 k = Some (2000, WaiterTimeout tid p)
           \<and> promises st1 p = None
           \<and> (\<forall>as. quiet tid k st1 as \<longrightarrow>
                 promises (run st1 as) p = None
               \<and> timers (run st1 as) k = Some (2000, WaiterTimeout tid p)
               \<and> promises (timerFired (run st1 as) k) p = Some None
               \<and> framesListeners (timerFired (run st1 as) k) tid = None)"
proof -
  let ?st = "run init_state as0"
  have fr: "fresh ?st" by (rule fresh_reachable)
  from getFramesMeasurements_waiting [OF fr assms(1), of fe S] assms(2)
  have st1: "st1 = ?st\<lparr>timers := (timers ?st)(Suc (nextId ?st) \<mapsto> (2000, WaiterTimeout tid (nextId ?st))),
               framesListeners := (framesListeners ?st)
                  (tid \<mapsto> \<lparr>l_traceId = tid, l_finalEndTimestamp = fe,
                           l_startFrames = S, l_promise = nextId ?st, l_timeout = Suc (nextId ?st)\<rparr>),
               nextId := Suc (Suc (nextId ?st))\<rparr>"
    and p: "p = nextId ?st"
    and w: "waiting tid (Suc p) p st1"
    by simp_all
  have later: "promises (run st1 as) p = None
               \<and> timers (run st1 as) (Suc p) = Some (2000, WaiterTimeout tid p)
               \<and> promises (timerFired (run st1 as) (Suc p)) p = Some None
               \<and> framesListeners (timerFired (run st1 as) (Suc p)) tid = None"
    if "quiet tid (Suc p) st1 as" for as
  proof -
    have w': "waiting tid (Suc p) p (run st1 as)" using w that by (rule waiting_run)
    then show ?thesis using waiting_fired [OF w'] by (simp add: waiting_def)
  qed
  have "framesListeners st1 tid = Some \<lparr>l_traceId = tid, l_finalEndTimestamp = fe,
                           l_startFrames = S, l_promise = p, l_timeout = Suc p\<rparr>"
    by (simp add: st1 p)
  moreover have "timers st1 (Suc p) = Some (2000, WaiterTimeout tid p)" "promises st1 p = None"
    using w by (simp_all add: waiting_def)
  ultimately show ?thesis using later by auto
qed

theorem getFramesMeasurements_timeout_witness:
  "finishFrames (run init_state [SpanFinish None 9]) ''t'' = None
   \<and> (\<exists>st1. getFramesMeasurements (run init_state [SpanFinish None 9]) ''t'' 10
          \<lparr>totalFrames = 100, slowFrames = 2, frozenFrames = 0\<rparr> = (st1, 1)
        \<and> quiet ''t'' 2 st1
            [FetchResolved 0 (Some \<lparr>totalFrames = 120, slowFrames = 2, frozenFrames = 0\<rparr>),
             TransactionFinish \<lparr>tx_ref = 7, traceId = ''u''\<rparr> 10.3]
        \<and> promises (timerFired (run st1
            [FetchResolved 0 (Some \<lparr>totalFrames = 120, slowFrames = 2, frozenFrames = 0\<rparr>),
             TransactionFinish \<lparr>tx_ref = 7, traceId = ''u''\<rparr> 10.3]) 2) 1 = Some None
        \<and> framesListeners (timerFired (run st1
            [FetchResolved 0 (Some \<lparr>totalFrames = 120, slowFrames = 2, frozenFrames = 0\<rparr>),
             TransactionFinish \<lparr>tx_ref = 7, traceId = ''u''\<rparr> 10.3]) 2) ''t'' = None)"
proof -
  let ?S = "\<lparr>totalFrames = 100, slowFrames = 2, frozenFrames = 0\<rparr>"
  let ?as = "[FetchResolved 0 (Some \<lparr>totalFrames = 120, slowFrames = 2, frozenFrames = 0\<rparr>),
             TransactionFinish \<lparr>tx_ref = 7, traceId = ''u''\<rparr> 10.3]"
  let ?st0 = "run init_state [SpanFinish None 9]"
  let ?st1 = "fst (getFramesMeasurements ?st0 ''t'' 10 ?S)"
  have h1: "finishFrames ?st0 ''t'' = None"
    by (simp add: exec_defs)
  have h2: "getFramesMeasurements ?st0 ''t'' 10 ?S = (?st1, 1)"
    by (simp add: exec_defs)
  have q: "quiet ''t'' 2 ?st1 ?as"
    by (simp add: exec_defs)
  from getFramesMeasurements_timeout [OF h1 h2] obtain k where
    k: "timers ?st1 k = Some (2000, WaiterTimeout ''t'' 1)"
    and later: "\<forall>as. quiet ''t'' k ?st1 as \<longrightarrow>
                 promises (run ?st1 as) 1 = None
               \<and> timers (run ?st1 as) k = Some (2000, WaiterTimeout ''t'' 1)
               \<and> promises (timerFired (run ?st1 as) k) 1 = Some None
               \<and> framesListeners (timerFired (run ?st1 as) k) ''t'' = None"
    by blast
  from k have "k = 2"
    by (simp add: exec_defs split: if_splits)
  with later q h1 h2 show ?thesis by blast
qed

section \<open>The finish of a transaction without start frames\<close>

text \<open>
  Claim C5: when \<^verbatim>\<open>_fetchFramesForTransaction\<close> runs for a transaction without start
  frames, no native fetch is started, the finish record with the timestamp and a
  \<^verbatim>\<open>null\<close> snapshot is stored under the trace identifier of the transaction, and a
  listener registered for that trace is called: it was waiting on a pending promise with
  its timer running; afterwards it is removed, its timer is cleared and its promise is
  settled with the result of \<^verbatim>\<open>_prepareMeasurements\<close>.
\<close>

theorem fetchFramesForTransaction_without_startFrames:
  assumes st: "st = run init_state as"
    and st': "st' = fetchFramesForTransaction st transaction now"
    and no_start: "txData st (tx_ref transaction) = None"
  shows "fetches st' = fetches st
       \<and> finishFrames st' (traceId transaction) = Some \<lparr>timestamp = now, nativeFrames = None\<rparr>
       \<and> (\<forall>l. framesListeners st (traceId transaction) = Some l \<longrightarrow>
             promises st (l_promise l) = None
           \<and> timers st (l_timeout l) = Some (2000, WaiterTimeout (traceId transaction) (l_promise l))
           \<and> framesListeners st' (traceId transaction) = None
           \<and> timers st' (l_timeout l) = None
           \<and> promises st' (l_promise l) =
               Some (prepareMeasurements st' (traceId transaction)
                      (l_finalEndTimestamp l) (l_startFrames l)))"
proof -
  let ?T = "traceId transaction"
  have lk: "linked st" and fr: "fresh st" using st by (simp_all add: reachable_inv)
  have eq: "st' = storeFinishFrames st ?T now None"
    using st' no_start by (simp add: fetchFramesForTransaction_def)
  have waiter: "promises st (l_promise l) = None
           \<and> timers st (l_timeout l) = Some (2000, WaiterTimeout ?T (l_promise l))
           \<and> framesListeners st' ?T = None
           \<and> timers st' (l_timeout l) = None
           \<and> promises st' (l_promise l) =
               Some (prepareMeasurements st' ?T (l_finalEndTimestamp l) (l_startFrames l))"
    if l: "framesListeners st ?T = Some l" for l
  proof -
    from linked_listener [OF lk l] fresh_listener [OF fr l]
    have facts: "l_traceId l = ?T" "promises st (l_promise l) = None"
      "timers st (l_timeout l) = Some (2000, WaiterTimeout ?T (l_promise l))"
      "l_timeout l < nextId st"
      by simp_all
    have "prepareMeasurements st' ?T (l_finalEndTimestamp l) (l_startFrames l)
        = prepareMeasurements
            (st\<lparr>finishFrames := (finishFrames st)(?T \<mapsto> \<lparr>timestamp = now, nativeFrames = None\<rparr>)\<rparr>)
            ?T (l_finalEndTimestamp l) (l_startFrames l)"
      by (rule prepareMeasurements_cong) (simp_all add: eq)
    then show ?thesis using facts l
      by (simp add: eq storeFinishFrames_promises)
  qed
  show ?thesis using waiter by (simp add: eq)
qed

theorem fetchFramesForTransaction_without_startFrames_witness:
  "txData (run init_state
      [ProcessEvent True
        \<lparr>ev_type = Some ''transaction'', ev_transaction = Some ''checkout'',
         ev_contexts = Some \<lparr>trace = Some \<lparr>trace_id = ''t'',
           data = Some \<lparr>startFrames = Some \<lparr>totalFrames = 100, slowFrames = 2, frozenFrames = 0\<rparr>,
                        other_data = Map.empty\<rparr>\<rparr>\<rparr>,
         ev_timestamp = Some 10, ev_measurements = None\<rparr>]) 0 = None
   \<and> framesListeners (run init_state
      [ProcessEvent True
        \<lparr>ev_type = Some ''transaction'', ev_transaction = Some ''checkout'',
         ev_contexts = Some \<lparr>trace = Some \<lparr>trace_id = ''t'',
           data = Some \<lparr>startFrames = Some \<lparr>totalFrames = 100, slowFrames = 2, frozenFrames = 0\<rparr>,
                        other_data = Map.empty\<rparr>\<rparr>\<rparr>,
         ev_timestamp = Some 10, ev_measurements = None\<rparr>]) ''t''
     = Some \<lparr>l_traceId = ''t'', l_finalEndTimestamp = 10,
         l_startFrames = \<lparr>totalFrames = 100, slowFrames = 2, frozenFrames = 0\<rparr>,
         l_promise = 0, l_timeout = 1\<rparr>
   \<and> (\<exists>st'. st' = fetchFramesForTransaction (run init_state
      [ProcessEvent True
        \<lparr>ev_type = Some ''transaction'', ev_transaction = Some ''checkout'',
         ev_contexts = Some \<lparr>trace = Some \<lparr>trace_id = ''t'',
           data = Some \<lparr>startFrames = Some \<lparr>totalFrames = 100, slowFrames = 2, frozenFrames = 0\<rparr>,
                        other_data = Map.empty\<rparr>\<rparr>\<rparr>,
         ev_timestamp = Some 10, ev_measurements = None\<rparr>]) \<lparr>tx_ref = 0, traceId = ''t''\<rparr> 10.01
      \<and> fetches st' = Map.empty
      \<and> finishFrames st' ''t'' = Some \<lparr>timestamp = 10.01, nativeFrames = None\<rparr>
      \<and> framesListeners st' ''t'' = None
      \<and> timers st' 1 = None
      \<and> promises st' 0 = Some None)"
proof -
  let ?ev = "\<lparr>ev_type = Some ''transaction'', ev_transaction = Some ''checkout'',
         ev_contexts = Some \<lparr>trace = Some \<lparr>trace_id = ''t'',
           data = Some \<lparr>startFrames = Some \<lparr>totalFrames = 100, slowFrames = 2, frozenFrames = 0\<rparr>,
                        other_data = Map.empty\<rparr>\<rparr>\<rparr>,
         ev_timestamp = Some 10, ev_measurements = None\<rparr>"
  let ?st = "run init_state [ProcessEvent True ?ev]"
  let ?tx = "\<lparr>tx_ref = 0, traceId = ''t''\<rparr>"
  let ?l = "\<lparr>l_traceId = ''t'', l_finalEndTimestamp = 10,
         l_startFrames = \<lparr>totalFrames = 100, slowFrames = 2, frozenFrames = 0\<rparr>,
         l_promise = 0, l_timeout = 1\<rparr>"
  let ?st' = "fetchFramesForTransaction ?st ?tx 10.01"
  have h: "txData ?st (tx_ref ?tx) = None"
    by (simp add: exec_defs)
  have l: "framesListeners ?st ''t'' = Some ?l"
    by (simp add: exec_defs)
  have f: "fetches ?st = Map.empty"
    by (simp add: exec_defs)
  have p: "prepareMeasurements ?st' ''t'' 10 \<lparr>totalFrames = 100, slowFrames = 2, frozenFrames = 0\<rparr>
           = None"
    by (simp add: exec_defs prepare_defs)
  from fetchFramesForTransaction_without_startFrames [OF refl refl h, of "10.01"] l f p
  have "fetches ?st' = Map.empty
      \<and> finishFrames ?st' ''t'' = Some \<lparr>timestamp = 10.01, nativeFrames = None\<rparr>
      \<and> framesListeners ?st' ''t'' = None
      \<and> timers ?st' 1 = None
      \<and> promises ?st' 0 = Some None"
    by simp
  with h l show ?thesis by simp
qed

section \<open>Events without start frames\<close>

text \<open>
  Claim C7: for an event whose trace context has no start frames, the event processor
  changes nothing in the state, so that no native fetch is started, no listener is
  stored and no timer is set, and it returns the event as it is, measurements included.
\<close>

theorem processEvent_without_startFrames:
  assumes "event_startFrames event = None"
  shows "processEvent st event = (st, Done event)
       \<and> eventProcessor doesExist st event = (st, Done event)"
  using assms
  by (auto simp: processEvent_def eventProcessor_def event_startFrames_def split: option.splits)

theorem processEvent_without_startFrames_witness:
  "event_startFrames
     \<lparr>ev_type = Some ''transaction'', ev_transaction = Some ''checkout'',
      ev_contexts = Some \<lparr>trace = Some \<lparr>trace_id = ''t'',
        data = Some \<lparr>startFrames = None, other_data = [''route'' \<mapsto> ''Home'']\<rparr>\<rparr>\<rparr>,
      ev_timestamp = Some 10, ev_measurements = Some [''app_start_cold'' \<mapsto> 1.5]\<rparr> = None
   \<and> eventProcessor True
       (run init_state [TransactionFinish \<lparr>tx_ref = 0, traceId = ''t''\<rparr> 10.01])
     \<lparr>ev_type = Some ''transaction'', ev_transaction = Some ''checkout'',
      ev_contexts = Some \<lparr>trace = Some \<lparr>trace_id = ''t'',
        data = Some \<lparr>startFrames = None, other_data = [''route'' \<mapsto> ''Home'']\<rparr>\<rparr>\<rparr>,
      ev_timestamp = Some 10, ev_measurements = Some [''app_start_cold'' \<mapsto> 1.5]\<rparr>
     = (run init_state [TransactionFinish \<lparr>tx_ref = 0, traceId = ''t''\<rparr> 10.01],
        Done \<lparr>ev_type = Some ''transaction'', ev_transaction = Some ''checkout'',
      ev_contexts = Some \<lparr>trace = Some \<lparr>trace_id = ''t'',
        data = Some \<lparr>startFrames = None, other_data = [''route'' \<mapsto> ''Home'']\<rparr>\<rparr>\<rparr>,
      ev_timestamp = Some 10, ev_measurements = Some [''app_start_cold'' \<mapsto> 1.5]\<rparr>)"
proof -
  let ?e = "\<lparr>ev_type = Some ''transaction'', ev_transaction = Some ''checkout'',
      ev_contexts = Some \<lparr>trace = Some \<lparr>trace_id = ''t'',
        data = Some \<lparr>startFrames = None, other_data = [''route'' \<mapsto> ''Home'']\<rparr>\<rparr>\<rparr>,
      ev_timestamp = Some 10, ev_measurements = Some [''app_start_cold'' \<mapsto> (1.5::real)]\<rparr>"
  have h: "event_startFrames ?e = None"
    by (simp add: event_startFrames_def startFrames_of_def)
  from h processEvent_without_startFrames [OF h, of
      "run init_state [TransactionFinish \<lparr>tx_ref = 0, traceId = ''t''\<rparr> 10.01]" True]
  show ?thesis by simp
qed

section \<open>The last span finish\<close>

text \<open>
  Claim C9: the field \<^verbatim>\<open>_lastSpanFinishFrames\<close> holds at most one record. A span
  finish without end timestamp starts a native fetch that keeps the captured timestamp;
  when that fetch resolves with a snapshot, the field is overwritten with the timestamp
  and the snapshot. No other step changes the field, and once it is set it stays set in
  every run.
\<close>

theorem lastSpanFinishFrames_rolling:
  "(\<not> truthy_number endTimestamp \<longrightarrow>
       fetches (onSpanFinish st endTimestamp now) (nextId st) = Some (SpanFinishFetch now))
   \<and> (fetches st i = Some (SpanFinishFetch ts) \<longrightarrow>
       lastSpanFinishFrames (step st (FetchResolved i (Some nf)))
         = Some \<lparr>span_timestamp = ts, span_nativeFrames = nf\<rparr>)
   \<and> (lastSpanFinishFrames (step st a) = lastSpanFinishFrames st
       \<or> (\<exists>j ts' nf'. a = FetchResolved j (Some nf') \<and> fetches st j = Some (SpanFinishFetch ts')
             \<and> lastSpanFinishFrames (step st a)
                = Some \<lparr>span_timestamp = ts', span_nativeFrames = nf'\<rparr>))
   \<and> (lastSpanFinishFrames st \<noteq> None \<longrightarrow> lastSpanFinishFrames (run st as) \<noteq> None)"
proof (intro conjI impI)
  assume "\<not> truthy_number endTimestamp"
  then show "fetches (onSpanFinish st endTimestamp now) (nextId st) = Some (SpanFinishFetch now)"
    by (simp add: onSpanFinish_def)
next
  assume "fetches st i = Some (SpanFinishFetch ts)"
  then show "lastSpanFinishFrames (step st (FetchResolved i (Some nf)))
         = Some \<lparr>span_timestamp = ts, span_nativeFrames = nf\<rparr>"
    by (simp add: lastSpan_step)
next
  show "lastSpanFinishFrames (step st a) = lastSpanFinishFrames st
       \<or> (\<exists>j ts' nf'. a = FetchResolved j (Some nf') \<and> fetches st j = Some (SpanFinishFetch ts')
             \<and> lastSpanFinishFrames (step st a)
                = Some \<lparr>span_timestamp = ts', span_nativeFrames = nf'\<rparr>)"
    by (auto simp: lastSpan_step split: action.splits option.splits fetch_continuation.splits)
next
  assume "lastSpanFinishFrames st \<noteq> None"
  then show "lastSpanFinishFrames (run st as) \<noteq> None" by (rule lastSpan_run_kept)
qed

theorem lastSpanFinishFrames_rolling_witness:
  "lastSpanFinishFrames
     (run init_state
        [SpanFinish None 9.5,
         FetchResolved 0 (Some \<lparr>totalFrames = 120, slowFrames = 3, frozenFrames = 0\<rparr>),
         SpanFinish (Some 9.7) 9.8,
         SpanFinish None 10.01,
         FetchResolved 1 (Some \<lparr>totalFrames = 150, slowFrames = 4, frozenFrames = 2\<rparr>)])
     = Some \<lparr>span_timestamp = 10.01,
             span_nativeFrames = \<lparr>totalFrames = 150, slowFrames = 4, frozenFrames = 2\<rparr>\<rparr>
   \<and> lastSpanFinishFrames
     (run (run init_state
        [SpanFinish None 9.5,
         FetchResolved 0 (Some \<lparr>totalFrames = 120, slowFrames = 3, frozenFrames = 0\<rparr>)])
        [TransactionFinish \<lparr>tx_ref = 0, traceId = ''t''\<rparr> 9.6, TimerFired 1,
         SpanFinish None 9.9, FetchResolved 2 None]) \<noteq> None"
proof -
  let ?st = "run init_state
        [SpanFinish None 9.5,
         FetchResolved 0 (Some \<lparr>totalFrames = 120, slowFrames = 3, frozenFrames = 0\<rparr>),
         SpanFinish (Some 9.7) 9.8,
         SpanFinish None 10.01]"
  let ?nf = "\<lparr>totalFrames = 150, slowFrames = 4, frozenFrames = 2\<rparr>"
  let ?st2 = "run init_state
        [SpanFinish None 9.5,
         FetchResolved 0 (Some \<lparr>totalFrames = 120, slowFrames = 3, frozenFrames = 0\<rparr>)]"
  have a: "fetches ?st 1 = Some (SpanFinishFetch 10.01)"
    by (simp add: exec_defs)
  have b: "lastSpanFinishFrames ?st2 \<noteq> None"
    by (simp add: exec_defs)
  have c: "run init_state
        [SpanFinish None 9.5,
         FetchResolved 0 (Some \<lparr>totalFrames = 120, slowFrames = 3, frozenFrames = 0\<rparr>),
         SpanFinish (Some 9.7) 9.8,
         SpanFinish None 10.01,
         FetchResolved 1 (Some ?nf)] = step ?st (FetchResolved 1 (Some ?nf))"
    by (simp add: run_def)
  from a b
    lastSpanFinishFrames_rolling [of None ?st 10 1 "10.01" ?nf "TimerFired 0" "[]"]
    lastSpanFinishFrames_rolling [of None ?st2 10 1 "10.01" ?nf "TimerFired 0"
      "[TransactionFinish \<lparr>tx_ref = 0, traceId = ''t''\<rparr> 9.6, TimerFired 1,
         SpanFinish None 9.9, FetchResolved 2 None]"]
  show ?thesis unfolding c by blast
qed

section \<open>What the event processor does to an event with start frames\<close>

text \<open>
  Claim C8, as stated: for every transaction event that carries a trace id, start frames
  and a timestamp, the measurements are merged on success and the start frames are
  removed from the event in both cases. This fails on the code for a transaction event
  without a name: the first guard of \<^verbatim>\<open>_processEvent\<close> also asks for a truthy
  \<^verbatim>\<open>event.transaction\<close>. Such an event, with a finish record of its trace within the
  margin, is returned as it is: the start frames stay on it, nothing is merged and the
  finish record stays.
\<close>

theorem processEvent_unnamed_counterexample:
  "ev_type
     \<lparr>ev_type = Some ''transaction'', ev_transaction = Some '''',
      ev_contexts = Some \<lparr>trace = Some \<lparr>trace_id = ''t'',
        data = Some \<lparr>startFrames = Some \<lparr>totalFrames = 100, slowFrames = 2, frozenFrames = 0\<rparr>,
                     other_data = Map.empty\<rparr>\<rparr>\<rparr>,
      ev_timestamp = Some 10, ev_measurements = None\<rparr> = Some ''transaction''
   \<and> finishFrames
       (run init_state
         [TransactionStart \<lparr>tx_ref = 0, traceId = ''t''\<rparr>,
          FetchResolved 0 (Some \<lparr>totalFrames = 100, slowFrames = 2, frozenFrames = 0\<rparr>),
          TransactionFinish \<lparr>tx_ref = 0, traceId = ''t''\<rparr> 10.02,
          FetchResolved 1 (Some \<lparr>totalFrames = 140, slowFrames = 5, frozenFrames = 1\<rparr>)]) ''t''
     = Some \<lparr>timestamp = 10.02,
         nativeFrames = Some \<lparr>totalFrames = 140, slowFrames = 5, frozenFrames = 1\<rparr>\<rparr>
   \<and> (\<exists>e. eventProcessor True
       (run init_state
         [TransactionStart \<lparr>tx_ref = 0, traceId = ''t''\<rparr>,
          FetchResolved 0 (Some \<lparr>totalFrames = 100, slowFrames = 2, frozenFrames = 0\<rparr>),
          TransactionFinish \<lparr>tx_ref = 0, traceId = ''t''\<rparr> 10.02,
          FetchResolved 1 (Some \<lparr>totalFrames = 140, slowFrames = 5, frozenFrames = 1\<rparr>)])
       \<lparr>ev_type = Some ''transaction'', ev_transaction = Some '''',
        ev_contexts = Some \<lparr>trace = Some \<lparr>trace_id = ''t'',
          data = Some \<lparr>startFrames = Some \<lparr>totalFrames = 100, slowFrames = 2, frozenFrames = 0\<rparr>,
                       other_data = Map.empty\<rparr>\<rparr>\<rparr>,
        ev_timestamp = Some 10, ev_measurements = None\<rparr>
      = (run init_state
         [TransactionStart \<lparr>tx_ref = 0, traceId = ''t''\<rparr>,
          FetchResolved 0 (Some \<lparr>totalFrames = 100, slowFrames = 2, frozenFrames = 0\<rparr>),
          TransactionFinish \<lparr>tx_ref = 0, traceId = ''t''\<rparr> 10.02,
          FetchResolved 1 (Some \<lparr>totalFrames = 140, slowFrames = 5, frozenFrames = 1\<rparr>)],
         Done e)
      \<and> event_startFrames e = Some \<lparr>totalFrames = 100, slowFrames = 2, frozenFrames = 0\<rparr>
      \<and> ev_measurements e = None)"
  by (simp add: exec_defs)

text \<open>
  Claim C8, amended: for every event of type transaction with a non-empty transaction
  name, a trace context with a non-empty trace id and start frames, and a non-zero
  timestamp, the call is suspended on the promise of \<^verbatim>\<open>_getFramesMeasurements\<close>, which is
  settled at once when the trace has a finish record (the call then runs on within the
  same step). When the call runs on with measurements, the returned event has the three
  frame measurements, every other measurement key is as before, and the finish record of
  the trace is deleted; when it runs on with \<^verbatim>\<open>null\<close>, the measurements and the finish
  records are as before. In both cases the returned event has no start frames, and its
  type, name and timestamp are unchanged.
\<close>

theorem processEvent_reconciles:
  assumes guards: "ev_type event = Some ''transaction''" "truthy_string (ev_transaction event)"
    "ev_contexts event = Some cs" "trace cs = Some tc" "trace_id tc = T" "T \<noteq> []"
    "startFrames_of tc = Some S" "ev_timestamp event = Some ts" "ts \<noteq> 0"
    and st: "st = run init_state as"
  shows "\<exists>p st1. processEvent st event = (st1, Pending p)
          \<and> awaiting st1 p = Some \<lparr>s_event = event, s_traceId = T\<rparr>
          \<and> returned st1 p = None
          \<and> promises st1 p =
              (if finishFrames st T = None then None
               else Some (prepareMeasurements st T ts S))
          \<and> (finishFrames st T \<noteq> None \<longrightarrow>
               step st (ProcessEvent True event) = resume (st1\<lparr>microtasks := []\<rparr>) p)
          \<and> (\<forall>st2 r. awaiting st2 p = Some \<lparr>s_event = event, s_traceId = T\<rparr>
                 \<and> promises st2 p = Some r \<and> returned st2 p = None \<longrightarrow>
               (\<exists>e. returned (resume st2 p) p = Some e
                  \<and> event_startFrames e = None
                  \<and> ev_type e = ev_type event \<and> ev_transaction e = ev_transaction event
                  \<and> ev_timestamp e = ev_timestamp event
                  \<and> (case r of
                       None \<Rightarrow> ev_measurements e = ev_measurements event
                              \<and> finishFrames (resume st2 p) = finishFrames st2
                     | Some m \<Rightarrow>
                         finishFrames (resume st2 p) = (finishFrames st2)(T := None)
                       \<and> (\<exists>ms. ev_measurements e = Some ms
                            \<and> (\<forall>key. ms key =
                                 (if key = ''frames_total'' then Some (of_int (frames_total m))
                                  else if key = ''frames_frozen'' then Some (of_int (frames_frozen m))
                                  else if key = ''frames_slow'' then Some (of_int (frames_slow m))
                                  else (case ev_measurements event of
                                          None \<Rightarrow> None
                                        | Some old \<Rightarrow> old key)))))))"
proof -
  let ?p = "nextId st"
  let ?s = "\<lparr>s_event = event, s_traceId = T\<rparr>"
  have fr: "fresh st" and mt: "microtasks st = []" using st by (simp_all add: reachable_inv)
  note un = fresh_unused [OF fr, of "nextId st"]
  have cont: "\<exists>e. returned (resume st2 ?p) ?p = Some e
                  \<and> event_startFrames e = None
                  \<and> ev_type e = ev_type event \<and> ev_transaction e = ev_transaction event
                  \<and> ev_timestamp e = ev_timestamp event
                  \<and> (case r of
                       None \<Rightarrow> ev_measurements e = ev_measurements event
                              \<and> finishFrames (resume st2 ?p) = finishFrames st2
                     | Some m \<Rightarrow>
                         finishFrames (resume st2 ?p) = (finishFrames st2)(T := None)
                       \<and> (\<exists>ms. ev_measurements e = Some ms
                            \<and> (\<forall>key. ms key =
                                 (if key = ''frames_total'' then Some (of_int (frames_total m))
                                  else if key = ''frames_frozen'' then Some (of_int (frames_frozen m))
                                  else if key = ''frames_slow'' then Some (of_int (frames_slow m))
                                  else (case ev_measurements event of
                                          None \<Rightarrow> None
                                        | Some old \<Rightarrow> old key)))))"
    if "awaiting st2 ?p = Some ?s" "promises st2 ?p = Some r" "returned st2 ?p = None"
    for st2 r
    using resume_suspended [OF that]
    by (cases r) (auto simp: processEvent_continue_def merge_measurements_apply)
  show ?thesis
  proof (cases "finishFrames st T")
    case None
    let ?st1 = "st\<lparr>timers := (timers st)(Suc ?p \<mapsto> (2000, WaiterTimeout T ?p)),
          framesListeners := (framesListeners st)
             (T \<mapsto> \<lparr>l_traceId = T, l_finalEndTimestamp = ts,
                      l_startFrames = S, l_promise = ?p, l_timeout = Suc ?p\<rparr>),
          nextId := Suc (Suc ?p),
          awaiting := (awaiting st)(?p \<mapsto> ?s)\<rparr>"
    have eq: "processEvent st event = (?st1, Pending ?p)"
      using None un by (simp add: processEvent_call [OF guards] getFramesMeasurements_def Let_def)
    have "awaiting ?st1 ?p = Some ?s" "returned ?st1 ?p = None" "promises ?st1 ?p = None"
      using un by simp_all
    with eq None cont show ?thesis by auto
  next
    case (Some rec)
    let ?st1 = "st\<lparr>promises := (promises st)(?p \<mapsto> prepareMeasurements st T ts S),
          nextId := Suc ?p,
          awaiting := (awaiting st)(?p \<mapsto> ?s),
          microtasks := [?p]\<rparr>"
    have eq: "processEvent st event = (?st1, Pending ?p)"
      using Some mt by (simp add: processEvent_call [OF guards] getFramesMeasurements_def Let_def)
    have a: "awaiting ?st1 ?p = Some ?s" "returned ?st1 ?p = None"
      "promises ?st1 ?p = Some (prepareMeasurements st T ts S)"
      using un by simp_all
    have "step st (ProcessEvent True event) = resume (?st1\<lparr>microtasks := []\<rparr>) ?p"
      by (simp add: step_def eventProcessor_def eq drain_def)
    with eq Some cont a show ?thesis by auto
  qed
qed

theorem processEvent_reconciles_witness:
  "\<exists>p e ms. returned
       (step (run init_state
         [TransactionStart \<lparr>tx_ref = 0, traceId = ''t''\<rparr>,
          FetchResolved 0 (Some \<lparr>totalFrames = 100, slowFrames = 2, frozenFrames = 0\<rparr>),
          TransactionFinish \<lparr>tx_ref = 0, traceId = ''t''\<rparr> 10.02,
          FetchResolved 1 (Some \<lparr>totalFrames = 140, slowFrames = 5, frozenFrames = 1\<rparr>)])
        (ProcessEvent True
          \<lparr>ev_type = Some ''transaction'', ev_transaction = Some ''checkout'',
           ev_contexts = Some \<lparr>trace = Some \<lparr>trace_id = ''t'',
             data = Some \<lparr>startFrames = Some \<lparr>totalFrames = 100, slowFrames = 2, frozenFrames = 0\<rparr>,
                          other_data = Map.empty\<rparr>\<rparr>\<rparr>,
           ev_timestamp = Some 10, ev_measurements = Some [''app_start_cold'' \<mapsto> 1.5]\<rparr>)) p
      = Some e
    \<and> event_startFrames e = None
    \<and> ev_measurements e = Some ms
    \<and> ms ''frames_total'' = Some 40 \<and> ms ''frames_slow'' = Some 3
    \<and> ms ''frames_frozen'' = Some 1 \<and> ms ''app_start_cold'' = Some 1.5
    \<and> finishFrames
       (step (run init_state
         [TransactionStart \<lparr>tx_ref = 0, traceId = ''t''\<rparr>,
          FetchResolved 0 (Some \<lparr>totalFrames = 100, slowFrames = 2, frozenFrames = 0\<rparr>),
          TransactionFinish \<lparr>tx_ref = 0, traceId = ''t''\<rparr> 10.02,
          FetchResolved 1 (Some \<lparr>totalFrames = 140, slowFrames = 5, frozenFrames = 1\<rparr>)])
        (ProcessEvent True
          \<lparr>ev_type = Some ''transaction'', ev_transaction = Some ''checkout'',
           ev_contexts = Some \<lparr>trace = Some \<lparr>trace_id = ''t'',
             data = Some \<lparr>startFrames = Some \<lparr>totalFrames = 100, slowFrames = 2, frozenFrames = 0\<rparr>,
                          other_data = Map.empty\<rparr>\<rparr>\<rparr>,
           ev_timestamp = Some 10, ev_measurements = Some [''app_start_cold'' \<mapsto> 1.5]\<rparr>)) ''t''
      = None"
proof -
  let ?S = "\<lparr>totalFrames = 100, slowFrames = 2, frozenFrames = 0\<rparr>"
  let ?tc = "\<lparr>trace_id = ''t'', data = Some \<lparr>startFrames = Some ?S, other_data = Map.empty\<rparr>\<rparr>"
  let ?cs = "\<lparr>trace = Some ?tc\<rparr>"
  let ?ev = "\<lparr>ev_type = Some ''transaction'', ev_transaction = Some ''checkout'',
           ev_contexts = Some ?cs,
           ev_timestamp = Some 10, ev_measurements = Some [''app_start_cold'' \<mapsto> (1.5::real)]\<rparr>"
  let ?as = "[TransactionStart \<lparr>tx_ref = 0, traceId = ''t''\<rparr>,
          FetchResolved 0 (Some ?S),
          TransactionFinish \<lparr>tx_ref = 0, traceId = ''t''\<rparr> 10.02,
          FetchResolved 1 (Some \<lparr>totalFrames = 140, slowFrames = 5, frozenFrames = 1\<rparr>)]"
  let ?st = "run init_state ?as"
  let ?m = "\<lparr>frames_total = 40, frames_frozen = 1, frames_slow = 3\<rparr>"
  have rec: "finishFrames ?st ''t'' \<noteq> None"
    by (simp add: exec_defs)
  have pm: "prepareMeasurements ?st ''t'' 10 ?S = Some ?m"
    by (simp add: exec_defs prepare_defs)
  from processEvent_reconciles [of ?ev ?cs ?tc "''t''" ?S 10 ?st ?as]
  obtain p st1 where
    aw: "awaiting st1 p = Some \<lparr>s_event = ?ev, s_traceId = ''t''\<rparr>"
    and re: "returned st1 p = None"
    and pr: "promises st1 p =
              (if finishFrames ?st ''t'' = None then None
               else Some (prepareMeasurements ?st ''t'' 10 ?S))"
    and stp: "finishFrames ?st ''t'' \<noteq> None \<longrightarrow>
               step ?st (ProcessEvent True ?ev) = resume (st1\<lparr>microtasks := []\<rparr>) p"
    and cont: "\<And>st2 r. awaiting st2 p = Some \<lparr>s_event = ?ev, s_traceId = ''t''\<rparr>
                 \<and> promises st2 p = Some r \<and> returned st2 p = None \<longrightarrow>
               (\<exists>e. returned (resume st2 p) p = Some e
                  \<and> event_startFrames e = None
                  \<and> ev_type e = ev_type ?ev \<and> ev_transaction e = ev_transaction ?ev
                  \<and> ev_timestamp e = ev_timestamp ?ev
                  \<and> (case r of
                       None \<Rightarrow> ev_measurements e = ev_measurements ?ev
                              \<and> finishFrames (resume st2 p) = finishFrames st2
                     | Some m \<Rightarrow>
                         finishFrames (resume st2 p) = (finishFrames st2)(''t'' := None)
                       \<and> (\<exists>ms. ev_measurements e = Some ms
                            \<and> (\<forall>key. ms key =
                                 (if key = ''frames_total'' then Some (of_int (frames_total m))
                                  else if key = ''frames_frozen'' then Some (of_int (frames_frozen m))
                                  else if key = ''frames_slow'' then Some (of_int (frames_slow m))
                                  else (case ev_measurements ?ev of
                                          None \<Rightarrow> None
                                        | Some old \<Rightarrow> old key))))))"
    by (simp add: startFrames_of_def truthy_string_def) blast
  from stp rec have eq: "step ?st (ProcessEvent True ?ev) = resume (st1\<lparr>microtasks := []\<rparr>) p"
    by simp
  from pr rec pm have pr': "promises (st1\<lparr>microtasks := []\<rparr>) p = Some (Some ?m)" by simp
  from cont [of "st1\<lparr>microtasks := []\<rparr>" "Some ?m"] aw re pr'
  obtain e ms where
    r1: "returned (resume (st1\<lparr>microtasks := []\<rparr>) p) p = Some e"
    and r2: "event_startFrames e = None"
    and r3: "finishFrames (resume (st1\<lparr>microtasks := []\<rparr>) p) = (finishFrames st1)(''t'' := None)"
    and r4: "ev_measurements e = Some ms"
    and ms: "\<forall>key. ms key =
                                 (if key = ''frames_total'' then Some (of_int (frames_total ?m))
                                  else if key = ''frames_frozen'' then Some (of_int (frames_frozen ?m))
                                  else if key = ''frames_slow'' then Some (of_int (frames_slow ?m))
                                  else (case ev_measurements ?ev of
                                          None \<Rightarrow> None
                                        | Some old \<Rightarrow> old key))"
    by auto
  from ms have v: "ms ''frames_total'' = Some 40" "ms ''frames_slow'' = Some 3"
    "ms ''frames_frozen'' = Some 1" "ms ''app_start_cold'' = Some 1.5"
    by simp_all
  from r3 have r3': "finishFrames (resume (st1\<lparr>microtasks := []\<rparr>) p) ''t'' = None"
    by simp
  show ?thesis unfolding eq
    using r1 r2 r4 v r3' by blast
qed

section \<open>A finish record is consumed once\<close>

text \<open>
  Claim C6: the finish records and the listeners are maps from trace identifiers, so a
  trace has at most one of each. When a step of a run completes a call of
  \<^verbatim>\<open>_processEvent\<close> with measurements (the call \<open>p\<close> had not returned before the step,
  has returned after it, and its promise holds measurements), the trace of that call has
  neither a finish record nor a listener after the step. A second event for the same
  trace then finds no record: its call is suspended, a listener and a timer of 2000 ms
  are registered for it, and in every run that follows in which no finish record is
  stored for the trace, the firing of the timer settles the promise with \<^verbatim>\<open>null\<close> and the
  event is returned with its measurements as they were and without start frames.
\<close>

theorem reconciliation_consumes:
  assumes st: "st = run init_state as" and st': "st' = step st a"
    and fin: "returned st p = None" "returned st' p = Some e"
      "promises st' p = Some (Some m)" "awaiting st' p = Some s"
    and T: "T = s_traceId s"
  shows "finishFrames st' T = None \<and> framesListeners st' T = None
     \<and> (\<forall>event cs tc S ts.
          ev_type event = Some ''transaction'' \<and> truthy_string (ev_transaction event)
          \<and> ev_contexts event = Some cs \<and> trace cs = Some tc \<and> trace_id tc = T \<and> T \<noteq> []
          \<and> startFrames_of tc = Some S \<and> ev_timestamp event = Some ts \<and> ts \<noteq> 0 \<longrightarrow>
          (\<exists>q k st2. step st' (ProcessEvent True event) = st2
              \<and> promises st2 q = None \<and> returned st2 q = None
              \<and> awaiting st2 q = Some \<lparr>s_event = event, s_traceId = T\<rparr>
              \<and> (\<exists>l. framesListeners st2 T = Some l \<and> l_promise l = q \<and> l_timeout l = k)
              \<and> timers st2 k = Some (2000, WaiterTimeout T q)
              \<and> (\<forall>as'. quiet T k st2 as' \<longrightarrow>
                    promises (step (run st2 as') (TimerFired k)) q = Some None
                  \<and> (\<exists>e2. returned (step (run st2 as') (TimerFired k)) q = Some e2
                        \<and> ev_measurements e2 = ev_measurements event
                        \<and> event_startFrames e2 = None))))"
proof -
  have inv: "linked st" "fresh st" "microtasks st = []"
    using st by (simp_all add: reachable_inv)
  have "st' = run init_state (as @ [a])" using st st' by (simp add: run_def)
  then have inv': "linked st'" "fresh st'" "microtasks st' = []"
    by (simp_all add: reachable_inv)
  from step_consumed [OF inv fin(1) fin(2-4) [unfolded st']]
  have gone: "finishFrames st' T = None" "framesListeners st' T = None"
    by (simp_all add: st' T)
  have again: "\<exists>q k st2. step st' (ProcessEvent True event) = st2
              \<and> promises st2 q = None \<and> returned st2 q = None
              \<and> awaiting st2 q = Some \<lparr>s_event = event, s_traceId = T\<rparr>
              \<and> (\<exists>l. framesListeners st2 T = Some l \<and> l_promise l = q \<and> l_timeout l = k)
              \<and> timers st2 k = Some (2000, WaiterTimeout T q)
              \<and> (\<forall>as'. quiet T k st2 as' \<longrightarrow>
                    promises (step (run st2 as') (TimerFired k)) q = Some None
                  \<and> (\<exists>e2. returned (step (run st2 as') (TimerFired k)) q = Some e2
                        \<and> ev_measurements e2 = ev_measurements event
                        \<and> event_startFrames e2 = None))"
    if g: "ev_type event = Some ''transaction''" "truthy_string (ev_transaction event)"
      "ev_contexts event = Some cs" "trace cs = Some tc" "trace_id tc = T" "T \<noteq> []"
      "startFrames_of tc = Some S" "ev_timestamp event = Some ts" "ts \<noteq> 0"
    for event cs tc S ts
  proof -
    let ?q = "nextId st'"
    let ?k = "Suc (nextId st')"
    let ?s = "\<lparr>s_event = event, s_traceId = T\<rparr>"
    let ?st2 = "(fst (getFramesMeasurements st' T ts S))\<lparr>awaiting := (awaiting st')(?q \<mapsto> ?s)\<rparr>"
    note un = fresh_unused [OF inv'(2), of "nextId st'"]
    note gfm = getFramesMeasurements_waiting [OF inv'(2) gone(1), of ts S]
    have pe: "processEvent st' event = (?st2, Pending ?q)"
      using un by (simp add: processEvent_call [OF g] gfm(1))
    have m2: "microtasks ?st2 = []" using inv'(3) by (simp add: gfm(1))
    have stp: "step st' (ProcessEvent True event) = ?st2"
      by (simp add: step_def eventProcessor_def pe drain_empty [OF m2])
    have w: "waiting T ?k ?q ?st2" using gfm(2) by simp
    have a2: "awaiting ?st2 ?q = Some ?s" by simp
    have r2: "returned ?st2 ?q = None" using un by (simp add: gfm(1))
    have p2: "promises ?st2 ?q = None" using w by (simp add: waiting_def)
    have t2: "timers ?st2 ?k = Some (2000, WaiterTimeout T ?q)" using w by (simp add: waiting_def)
    have l2: "\<exists>l. framesListeners ?st2 T = Some l \<and> l_promise l = ?q \<and> l_timeout l = ?k"
      by (simp add: gfm(1))
    have later: "promises (step (run ?st2 as') (TimerFired ?k)) ?q = Some None
                  \<and> (\<exists>e2. returned (step (run ?st2 as') (TimerFired ?k)) ?q = Some e2
                        \<and> ev_measurements e2 = ev_measurements event
                        \<and> event_startFrames e2 = None)"
      if "quiet T ?k ?st2 as'" for as'
      using waiting_call_times_out(1,2) [OF w a2 r2 m2 that] by simp
    from stp p2 r2 a2 l2 t2 later show ?thesis by blast
  qed
  from gone again show ?thesis by blast
qed

theorem reconciliation_consumes_witness:
  "returned (run init_state
         [TransactionStart \<lparr>tx_ref = 0, traceId = ''t''\<rparr>,
          FetchResolved 0 (Some \<lparr>totalFrames = 100, slowFrames = 2, frozenFrames = 0\<rparr>),
          TransactionFinish \<lparr>tx_ref = 0, traceId = ''t''\<rparr> 10.02,
          FetchResolved 1 (Some \<lparr>totalFrames = 140, slowFrames = 5, frozenFrames = 1\<rparr>)]) 3 = None
   \<and> finishFrames (run init_state
         [TransactionStart \<lparr>tx_ref = 0, traceId = ''t''\<rparr>,
          FetchResolved 0 (Some \<lparr>totalFrames = 100, slowFrames = 2, frozenFrames = 0\<rparr>),
          TransactionFinish \<lparr>tx_ref = 0, traceId = ''t''\<rparr> 10.02,
          FetchResolved 1 (Some \<lparr>totalFrames = 140, slowFrames = 5, frozenFrames = 1\<rparr>)]) ''t''
       \<noteq> None
   \<and> (\<exists>st'. st' = step (run init_state
         [TransactionStart \<lparr>tx_ref = 0, traceId = ''t''\<rparr>,
          FetchResolved 0 (Some \<lparr>totalFrames = 100, slowFrames = 2, frozenFrames = 0\<rparr>),
          TransactionFinish \<lparr>tx_ref = 0, traceId = ''t''\<rparr> 10.02,
          FetchResolved 1 (Some \<lparr>totalFrames = 140, slowFrames = 5, frozenFrames = 1\<rparr>)])
        (ProcessEvent True
          \<lparr>ev_type = Some ''transaction'', ev_transaction = Some ''checkout'',
           ev_contexts = Some \<lparr>trace = Some \<lparr>trace_id = ''t'',
             data = Some \<lparr>startFrames = Some \<lparr>totalFrames = 100, slowFrames = 2, frozenFrames = 0\<rparr>,
                          other_data = Map.empty\<rparr>\<rparr>\<rparr>,
           ev_timestamp = Some 10, ev_measurements = None\<rparr>)
      \<and> returned st' 3 \<noteq> None
      \<and> promises st' 3 = Some (Some \<lparr>frames_total = 40, frames_frozen = 1, frames_slow = 3\<rparr>)
      \<and> finishFrames st' ''t'' = None
      \<and> framesListeners st' ''t'' = None
      \<and> (\<exists>q k st2. st2 = step st' (ProcessEvent True
          \<lparr>ev_type = Some ''transaction'', ev_transaction = Some ''checkout'',
           ev_contexts = Some \<lparr>trace = Some \<lparr>trace_id = ''t'',
             data = Some \<lparr>startFrames = Some \<lparr>totalFrames = 100, slowFrames = 2, frozenFrames = 0\<rparr>,
                          other_data = Map.empty\<rparr>\<rparr>\<rparr>,
           ev_timestamp = Some 10, ev_measurements = None\<rparr>)
          \<and> promises st2 q = None
          \<and> timers st2 k = Some (2000, WaiterTimeout ''t'' q)
          \<and> promises (step (run st2 [SpanFinish None 11]) (TimerFired k)) q = Some None
          \<and> (\<exists>e2. returned (step (run st2 [SpanFinish None 11]) (TimerFired k)) q = Some e2
                \<and> ev_measurements e2 = None \<and> event_startFrames e2 = None)))"
proof -
  let ?S = "\<lparr>totalFrames = 100, slowFrames = 2, frozenFrames = 0\<rparr>"
  let ?tc = "\<lparr>trace_id = ''t'', data = Some \<lparr>startFrames = Some ?S, other_data = Map.empty\<rparr>\<rparr>"
  let ?cs = "\<lparr>trace = Some ?tc\<rparr>"
  let ?ev = "\<lparr>ev_type = Some ''transaction'', ev_transaction = Some ''checkout'',
           ev_contexts = Some ?cs,
           ev_timestamp = Some 10, ev_measurements = None\<rparr>"
  let ?as = "[TransactionStart \<lparr>tx_ref = 0, traceId = ''t''\<rparr>,
          FetchResolved 0 (Some ?S),
          TransactionFinish \<lparr>tx_ref = 0, traceId = ''t''\<rparr> 10.02,
          FetchResolved 1 (Some \<lparr>totalFrames = 140, slowFrames = 5, frozenFrames = 1\<rparr>)]"
  let ?st = "run init_state ?as"
  let ?st' = "step ?st (ProcessEvent True ?ev)"
  let ?m = "\<lparr>frames_total = 40, frames_frozen = 1, frames_slow = 3\<rparr>"
  have h0: "finishFrames ?st ''t'' \<noteq> None"
    by (simp add: exec_defs)
  have h1: "returned ?st 3 = None"
    by (simp add: exec_defs)
  have h2: "returned ?st' 3 \<noteq> None"
    by (simp add: exec_defs prepare_defs)
  have h3: "promises ?st' 3 = Some (Some ?m)"
    by (simp add: exec_defs prepare_defs)
  have h4: "awaiting ?st' 3 = Some \<lparr>s_event = ?ev, s_traceId = ''t''\<rparr>"
    by (simp add: exec_defs prepare_defs)
  from h2 obtain e where h2': "returned ?st' 3 = Some e" by blast
  have T: "''t'' = s_traceId \<lparr>s_event = ?ev, s_traceId = ''t''\<rparr>" by simp
  note main = reconciliation_consumes [OF refl refl h1 h2' h3 h4 T]
  from main have gone: "finishFrames ?st' ''t'' = None" "framesListeners ?st' ''t'' = None"
    by blast+
  from main have "\<exists>q k st2. step ?st' (ProcessEvent True ?ev) = st2
              \<and> promises st2 q = None \<and> returned st2 q = None
              \<and> awaiting st2 q = Some \<lparr>s_event = ?ev, s_traceId = ''t''\<rparr>
              \<and> (\<exists>l. framesListeners st2 ''t'' = Some l \<and> l_promise l = q \<and> l_timeout l = k)
              \<and> timers st2 k = Some (2000, WaiterTimeout ''t'' q)
              \<and> (\<forall>as'. quiet ''t'' k st2 as' \<longrightarrow>
                    promises (step (run st2 as') (TimerFired k)) q = Some None
                  \<and> (\<exists>e2. returned (step (run st2 as') (TimerFired k)) q = Some e2
                        \<and> ev_measurements e2 = ev_measurements ?ev
                        \<and> event_startFrames e2 = None))"
    by (elim conjE allE [of _ ?ev] allE [of _ ?cs] allE [of _ ?tc] allE [of _ ?S]
        allE [of _ "10::real"])
       (simp add: startFrames_of_def truthy_string_def)
  then obtain q k where
    a1: "promises (step ?st' (ProcessEvent True ?ev)) q = None"
    and a2: "timers (step ?st' (ProcessEvent True ?ev)) k = Some (2000, WaiterTimeout ''t'' q)"
    and a3: "\<forall>as'. quiet ''t'' k (step ?st' (ProcessEvent True ?ev)) as' \<longrightarrow>
                    promises (step (run (step ?st' (ProcessEvent True ?ev)) as') (TimerFired k)) q
                      = Some None
                  \<and> (\<exists>e2. returned (step (run (step ?st' (ProcessEvent True ?ev)) as')
                                (TimerFired k)) q = Some e2
                        \<and> ev_measurements e2 = ev_measurements ?ev
                        \<and> event_startFrames e2 = None)"
    by blast
  have "quiet ''t'' k (step ?st' (ProcessEvent True ?ev)) [SpanFinish None 11]"
    by simp
  with a3 have a4: "promises (step (run (step ?st' (ProcessEvent True ?ev)) [SpanFinish None 11])
                       (TimerFired k)) q = Some None
                  \<and> (\<exists>e2. returned (step (run (step ?st' (ProcessEvent True ?ev))
                                [SpanFinish None 11]) (TimerFired k)) q = Some e2
                        \<and> ev_measurements e2 = None
                        \<and> event_startFrames e2 = None)"
    by fastforce
  from h0 h1 h2 h3 gone a1 a2 a4 show ?thesis by blast
qed

end
